theory Spec2Isabelle
  imports Main "HOL-Library.Sublist"
begin

section \<open>Data model\<close>

text \<open>
  The dataclass \<open>ContainerLimitIssue\<close> of \<open>k8s_pod_limits_checker.py\<close>: one record per
  container that misses a limit. A Python \<open>str\<close> is a \<open>string\<close>; one \<open>char\<close> of the
  model stands for one code point of the Python string.
\<close>

record ContainerLimitIssue =
  namespace :: string
  pod_name :: string
  container_name :: string
  missing_cpu_limit :: bool
  missing_memory_limit :: bool

text \<open>
  The objects the cluster client returns, with the attributes the checker reads:
  \<open>pod.metadata.namespace\<close>, \<open>pod.metadata.name\<close>, \<open>pod.spec.containers\<close>,
  \<open>container.name\<close>, \<open>container.resources\<close> (an object or \<open>None\<close>) and
  \<open>resources.limits\<close> (a dict or \<open>None\<close>). The dict is a map from keys to the values
  stored: a string (\<open>Some s\<close>) or Python's \<open>None\<close>, which a dict can hold as well.
\<close>

record V1ResourceRequirements =
  limits :: "(string \<rightharpoonup> string option) option"

record V1Container =
  c_name :: string
  c_resources :: "V1ResourceRequirements option"

record V1ObjectMeta =
  meta_namespace :: string
  meta_name :: string

record V1PodSpec =
  containers :: "V1Container list"

record V1Pod =
  metadata :: V1ObjectMeta
  spec :: V1PodSpec

section \<open>The evaluator\<close>

text \<open>
  \<open>d.get(k)\<close>: the value stored under \<open>k\<close>, or \<open>None\<close> when \<open>k\<close> is not a key. The result
  is \<open>None\<close> in both cases "no key" and "the key stores \<open>None\<close>".
\<close>

definition dict_get :: "(string \<rightharpoonup> string option) \<Rightarrow> string \<Rightarrow> string option" where
  "dict_get d k = (case d k of None \<Rightarrow> None | Some v \<Rightarrow> v)"

text \<open>
  The body of the inner loop of \<open>get_containers_with_missing_limits\<close> (source lines
  112 to 128): \<open>containers_with_issues\<close> is the list the loop appends to.
\<close>

definition check_container ::
  "string \<Rightarrow> string \<Rightarrow> ContainerLimitIssue list \<Rightarrow> V1Container \<Rightarrow> ContainerLimitIssue list" where
  "check_container namespace_name pod_name' containers_with_issues container =
     (let resources = c_resources container;
          limits' = (case resources of None \<Rightarrow> None | Some r \<Rightarrow> limits r);
          missing_cpu = (case limits' of None \<Rightarrow> True | Some m \<Rightarrow> dict_get m ''cpu'' = None);
          missing_memory = (case limits' of None \<Rightarrow> True | Some m \<Rightarrow> dict_get m ''memory'' = None)
      in if missing_cpu \<or> missing_memory
         then containers_with_issues @
              [\<lparr>namespace = namespace_name, pod_name = pod_name',
                container_name = c_name container,
                missing_cpu_limit = missing_cpu,
                missing_memory_limit = missing_memory\<rparr>]
         else containers_with_issues)"

text \<open>The body of the outer loop (source lines 106 to 132), one pod.\<close>

definition check_pod :: "ContainerLimitIssue list \<Rightarrow> V1Pod \<Rightarrow> ContainerLimitIssue list" where
  "check_pod containers_with_issues pod =
     (let namespace_name = meta_namespace (metadata pod);
          pod_name' = meta_name (metadata pod)
      in foldl (check_container namespace_name pod_name') containers_with_issues
               (containers (spec pod)))"

text \<open>Both loops over \<open>pod_list.items\<close>, starting from the empty list.\<close>

definition collect_issues :: "V1Pod list \<Rightarrow> ContainerLimitIssue list" where
  "collect_issues items = foldl check_pod [] items"

text \<open>
  Exceptions of the client library, as values. \<open>ApiException\<close> and \<open>ConfigException\<close> are
  the two classes the source names; \<open>OtherException\<close> is any other \<open>Exception\<close>.
\<close>

datatype py_exception = ApiException | ConfigException | OtherException

text \<open>
  One call of \<open>patch_namespaced_pod\<close>: the namespace, the pod name and the value stored
  under the annotation key \<open>warning\<close> of the patch body.
\<close>

record patch_call =
  pc_namespace :: string
  pc_name :: string
  pc_warning :: string

text \<open>
  The connected client \<open>self.v1_client\<close>. Listing answers with a pod list or raises. A
  patch raises or returns; its outcome may depend on every patch call made before it
  (the first argument), which covers any deterministic cluster.
\<close>

record CoreV1Api =
  list_namespaced_pod :: "string \<Rightarrow> py_exception + V1Pod list"
  list_pod_for_all_namespaces :: "py_exception + V1Pod list"
  patch_namespaced_pod :: "patch_call list \<Rightarrow> patch_call \<Rightarrow> py_exception option"

text \<open>
  \<open>get_containers_with_missing_limits\<close> on a connected checker. \<open>list_pods\<close> is the
  listing call of source lines 99 to 104: \<open>if namespace:\<close> is false for \<open>None\<close> and for
  the empty string. Both \<open>except\<close> branches return \<open>[]\<close>.
\<close>

definition list_pods :: "CoreV1Api \<Rightarrow> string option \<Rightarrow> py_exception + V1Pod list" where
  "list_pods v1_client namespace' =
     (case namespace' of
        None \<Rightarrow> list_pod_for_all_namespaces v1_client
      | Some n \<Rightarrow> if n \<noteq> [] then list_namespaced_pod v1_client n
                  else list_pod_for_all_namespaces v1_client)"

definition get_containers_with_missing_limits ::
  "CoreV1Api \<Rightarrow> string option \<Rightarrow> ContainerLimitIssue list" where
  "get_containers_with_missing_limits v1_client namespace' =
     (case list_pods v1_client namespace' of
        Inl ApiException \<Rightarrow> []
      | Inl _ \<Rightarrow> []
      | Inr items \<Rightarrow> collect_issues items)"

section \<open>The annotator\<close>

text \<open>
  \<open>annotate_pod\<close>: the state \<open>calls\<close> is the list of patch calls made on the cluster so
  far, returned extended by the call this one makes. \<open>apply_patch\<close> is source lines 171
  to 201: the patch call, \<open>True\<close> when it returns and \<open>False\<close> from either \<open>except\<close>
  branch.
\<close>

definition apply_patch ::
  "CoreV1Api \<Rightarrow> patch_call list \<Rightarrow> string \<Rightarrow> string \<Rightarrow> string \<Rightarrow> bool \<times> patch_call list" where
  "apply_patch v1_client calls namespace' pod_name' annotation_value =
     (let patch = \<lparr>pc_namespace = namespace', pc_name = pod_name', pc_warning = annotation_value\<rparr>
      in case patch_namespaced_pod v1_client calls patch of
           None \<Rightarrow> (True, calls @ [patch])
         | Some ApiException \<Rightarrow> (False, calls @ [patch])
         | Some _ \<Rightarrow> (False, calls @ [patch]))"

definition annotate_pod ::
  "CoreV1Api \<Rightarrow> patch_call list \<Rightarrow> string \<Rightarrow> string \<Rightarrow> bool \<Rightarrow> bool \<Rightarrow> bool \<times> patch_call list" where
  "annotate_pod v1_client calls namespace' pod_name' missing_cpu missing_memory =
     (if missing_cpu \<and> missing_memory
        then apply_patch v1_client calls namespace' pod_name' ''no-limits''
      else if missing_cpu
        then apply_patch v1_client calls namespace' pod_name' ''no-cpu-limit''
      else if missing_memory
        then apply_patch v1_client calls namespace' pod_name' ''no-memory-limit''
      else (False, calls))"

text \<open>
  The values of the dict \<open>pods_to_annotate\<close>. The dict itself is an association list in
  insertion order, which is the order Python iterates \<open>values()\<close> in.
\<close>

record pod_info =
  pi_namespace :: string
  pi_pod_name :: string
  pi_missing_cpu :: bool
  pi_missing_memory :: bool

fun dict_update ::
  "string \<Rightarrow> (pod_info \<Rightarrow> pod_info) \<Rightarrow> (string \<times> pod_info) list \<Rightarrow> (string \<times> pod_info) list" where
  "dict_update k g [] = []"
| "dict_update k g ((k', v) # d) =
     (if k' = k then (k', g v) # d else (k', v) # dict_update k g d)"

definition pod_key_of :: "ContainerLimitIssue \<Rightarrow> string" where
  "pod_key_of issue = namespace issue @ ''/'' @ pod_name issue"

text \<open>The body of the grouping loop (source lines 217 to 232).\<close>

definition group_issue ::
  "(string \<times> pod_info) list \<Rightarrow> ContainerLimitIssue \<Rightarrow> (string \<times> pod_info) list" where
  "group_issue pods_to_annotate issue =
     (let pod_key = pod_key_of issue;
          d1 = (if map_of pods_to_annotate pod_key = None
                then pods_to_annotate @
                     [(pod_key, \<lparr>pi_namespace = namespace issue, pi_pod_name = pod_name issue,
                                 pi_missing_cpu = False, pi_missing_memory = False\<rparr>)]
                else pods_to_annotate);
          d2 = (if missing_cpu_limit issue
                then dict_update pod_key (\<lambda>v. v\<lparr>pi_missing_cpu := True\<rparr>) d1 else d1);
          d3 = (if missing_memory_limit issue
                then dict_update pod_key (\<lambda>v. v\<lparr>pi_missing_memory := True\<rparr>) d2 else d2)
      in d3)"

text \<open>The body of the annotation loop (source lines 240 to 249).\<close>

definition annotate_step ::
  "CoreV1Api \<Rightarrow> (nat \<times> nat) \<times> patch_call list \<Rightarrow> pod_info \<Rightarrow> (nat \<times> nat) \<times> patch_call list" where
  "annotate_step v1_client st info =
     (case st of ((success_count, failure_count), calls) \<Rightarrow>
        (case annotate_pod v1_client calls (pi_namespace info) (pi_pod_name info)
                (pi_missing_cpu info) (pi_missing_memory info) of
           (True, calls') \<Rightarrow> ((success_count + 1, failure_count), calls')
         | (False, calls') \<Rightarrow> ((success_count, failure_count + 1), calls')))"

definition annotate_pods_with_issues ::
  "CoreV1Api \<Rightarrow> patch_call list \<Rightarrow> ContainerLimitIssue list \<Rightarrow> (nat \<times> nat) \<times> patch_call list" where
  "annotate_pods_with_issues v1_client calls issues =
     (let pods_to_annotate = foldl group_issue [] issues
      in foldl (annotate_step v1_client) ((0, 0), calls) (map snd pods_to_annotate))"

section \<open>The reporters\<close>

definition newline :: string where
  "newline = [CHR 0x0A]"

definition dquote :: char where
  "dquote = CHR 0x22"

definition backslash :: char where
  "backslash = CHR 0x5C"

text \<open>\<open>sep.join(xs)\<close> and the format specification \<open>{val:<w}\<close>.\<close>

fun join :: "string \<Rightarrow> string list \<Rightarrow> string" where
  "join sep [] = []"
| "join sep [x] = x"
| "join sep (x # y # ys) = x @ sep @ join sep (y # ys)"

definition ljust :: "nat \<Rightarrow> string \<Rightarrow> string" where
  "ljust w val = val @ replicate (w - length val) CHR '' ''"

text \<open>\<open>max(generator, default=0)\<close>.\<close>

definition max_default :: "nat list \<Rightarrow> nat" where
  "max_default xs = (case xs of [] \<Rightarrow> 0 | x # xs' \<Rightarrow> fold max xs' x)"

definition headers :: "string list" where
  "headers = [''NAMESPACE'', ''POD NAME'', ''CONTAINER NAME'', ''MISSING CPU'', ''MISSING MEMORY'']"

definition col_widths :: "ContainerLimitIssue list \<Rightarrow> nat list" where
  "col_widths issues =
     [max (length (headers ! 0)) (max_default (map (\<lambda>issue. length (namespace issue)) issues)),
      max (length (headers ! 1)) (max_default (map (\<lambda>issue. length (pod_name issue)) issues)),
      max (length (headers ! 2)) (max_default (map (\<lambda>issue. length (container_name issue)) issues)),
      length (headers ! 3),
      length (headers ! 4)]"

definition separator :: "nat list \<Rightarrow> string" where
  "separator widths = ''+'' @ join ''+'' (map (\<lambda>w. replicate (w + 2) CHR ''-'') widths) @ ''+''"

definition table_line :: "nat list \<Rightarrow> string list \<Rightarrow> string" where
  "table_line widths vals =
     ''| '' @ join '' | '' (map (\<lambda>(i, val). ljust (widths ! i) val) (enumerate 0 vals)) @ '' |''"

definition table_cells :: "ContainerLimitIssue \<Rightarrow> string list" where
  "table_cells issue =
     [namespace issue, pod_name issue, container_name issue,
      if missing_cpu_limit issue then ''YES'' else ''NO'',
      if missing_memory_limit issue then ''YES'' else ''NO'']"

definition format_table :: "ContainerLimitIssue list \<Rightarrow> string" where
  "format_table issues =
     (if issues = [] then ''No containers with missing resource limits found.''
      else (let widths = col_widths issues;
                sep = separator widths;
                lines = [sep] @ [table_line widths headers] @ [sep]
                        @ map (\<lambda>issue. table_line widths (table_cells issue)) issues
                        @ [sep]
            in join newline lines))"

text \<open>
  \<open>json.dumps(obj, indent=2)\<close> of the standard library, for the values the checker
  passes: a list of dicts from field names to strings and booleans. A string is escaped
  as the default \<open>ensure_ascii\<close> encoder does it, for code points below 256.
\<close>

definition hex_digit :: "nat \<Rightarrow> char" where
  "hex_digit n = ''0123456789abcdef'' ! (n mod 16)"

definition json_escape :: "char \<Rightarrow> string" where
  "json_escape c =
     (let n = (of_char c :: nat)
      in if c = backslash then [backslash, backslash]
         else if c = dquote then [backslash, dquote]
         else if 32 \<le> n \<and> n \<le> 126 then [c]
         else if n = 8 then [backslash, CHR ''b'']
         else if n = 12 then [backslash, CHR ''f'']
         else if n = 10 then [backslash, CHR ''n'']
         else if n = 13 then [backslash, CHR ''r'']
         else if n = 9 then [backslash, CHR ''t'']
         else [backslash, CHR ''u'', CHR ''0'', CHR ''0'', hex_digit (n div 16), hex_digit n])"

definition json_string :: "string \<Rightarrow> string" where
  "json_string s = [dquote] @ concat (map json_escape s) @ [dquote]"

definition json_bool :: "bool \<Rightarrow> string" where
  "json_bool b = (if b then ''true'' else ''false'')"

text \<open>A dict inside the list: nesting level 2, so its members are indented by 4.\<close>

definition json_dict :: "(string \<times> string) list \<Rightarrow> string" where
  "json_dict members =
     (if members = [] then ''{}''
      else ''{'' @ newline @ ''    ''
           @ join ('','' @ newline @ ''    '') (map (\<lambda>(k, v). json_string k @ '': '' @ v) members)
           @ newline @ ''  '' @ ''}'')"

definition json_list :: "string list \<Rightarrow> string" where
  "json_list elems =
     (if elems = [] then ''[]''
      else ''['' @ newline @ ''  '' @ join ('','' @ newline @ ''  '') elems @ newline @ '']'')"

text \<open>\<open>asdict(issue)\<close>, each value already encoded.\<close>

definition asdict :: "ContainerLimitIssue \<Rightarrow> (string \<times> string) list" where
  "asdict issue =
     [(''namespace'', json_string (namespace issue)),
      (''pod_name'', json_string (pod_name issue)),
      (''container_name'', json_string (container_name issue)),
      (''missing_cpu_limit'', json_bool (missing_cpu_limit issue)),
      (''missing_memory_limit'', json_bool (missing_memory_limit issue))]"

definition format_json :: "ContainerLimitIssue list \<Rightarrow> string" where
  "format_json issues = json_list (map (\<lambda>issue. json_dict (asdict issue)) issues)"

text \<open>\<open>str(b)\<close> of a Python bool, as the f-string of \<open>format_csv\<close> renders it.\<close>

definition py_str_bool :: "bool \<Rightarrow> string" where
  "py_str_bool b = (if b then ''True'' else ''False'')"

definition csv_line :: "ContainerLimitIssue \<Rightarrow> string" where
  "csv_line issue =
     [dquote] @ namespace issue @ [dquote] @ '','' @ [dquote] @ pod_name issue @ [dquote] @ '',''
     @ [dquote] @ container_name issue @ [dquote] @ '',''
     @ [dquote] @ py_str_bool (missing_cpu_limit issue) @ [dquote] @ '',''
     @ [dquote] @ py_str_bool (missing_memory_limit issue) @ [dquote]"

definition format_csv :: "ContainerLimitIssue list \<Rightarrow> string" where
  "format_csv issues =
     join newline
       (''NAMESPACE,POD_NAME,CONTAINER_NAME,MISSING_CPU_LIMIT,MISSING_MEMORY_LIMIT''
        # map csv_line issues)"

section \<open>The session\<close>

text \<open>
  What the two credential paths of \<open>connect\<close> do in one run: the statements inside each
  \<open>try\<close> (loading the configuration, creating the client) raise, or give a client.
\<close>

record cluster_env =
  incluster :: "py_exception + CoreV1Api"
  kubeconfig :: "py_exception + CoreV1Api"

text \<open>
  \<open>connect\<close> returns \<open>True\<close> with \<open>self.v1_client\<close> set, or \<open>False\<close>: \<open>Some client\<close> or
  \<open>None\<close>. The external configuration is tried only after a \<open>ConfigException\<close> of the
  in-cluster path; any other exception there reaches the outer \<open>except Exception\<close>.
\<close>

definition connect :: "cluster_env \<Rightarrow> CoreV1Api option" where
  "connect env =
     (case incluster env of
        Inr v1_client \<Rightarrow> Some v1_client
      | Inl ConfigException \<Rightarrow>
          (case kubeconfig env of
             Inr v1_client \<Rightarrow> Some v1_client
           | Inl ConfigException \<Rightarrow> None
           | Inl _ \<Rightarrow> None)
      | Inl _ \<Rightarrow> None)"

text \<open>
  \<open>main\<close> from the parsed arguments on; log lines are not part of the model. The result
  is the exit code, the text given to \<open>print\<close> (if that line is reached) and the patch
  calls made on the cluster.
\<close>

record arguments =
  arg_output :: string
  arg_namespace :: "string option"
  arg_annotate :: bool

record run_result =
  exit_code :: int
  printed :: "string option"
  patch_calls :: "patch_call list"

definition main :: "cluster_env \<Rightarrow> arguments \<Rightarrow> run_result" where
  "main env args =
     (case connect env of
        None \<Rightarrow> \<lparr>exit_code = 1, printed = None, patch_calls = []\<rparr>
      | Some checker \<Rightarrow>
          (let issues = get_containers_with_missing_limits checker (arg_namespace args);
               calls = (if arg_annotate args \<and> issues \<noteq> []
                        then snd (annotate_pods_with_issues checker [] issues)
                        else []);
               output = (if arg_output args = ''json'' then format_json issues
                         else if arg_output args = ''csv'' then format_csv issues
                         else format_table issues)
           in \<lparr>exit_code = 0, printed = Some output, patch_calls = calls\<rparr>))"

section \<open>Words of the specification about the evaluator\<close>

text \<open>
  The snapshot's nested iteration order: every (pod, container) pair, pods in snapshot
  order and the containers of a pod in their order.
\<close>

definition snapshot_containers :: "V1Pod list \<Rightarrow> (V1Pod \<times> V1Container) list" where
  "snapshot_containers items = concat (map (\<lambda>pod. map (Pair pod) (containers (spec pod))) items)"

text \<open>
  The limits mapping of a container: absent when there is no resources object, or no
  limits in it. \<open>key_absent\<close> is the specification's boolean: the mapping is absent, or
  the key is absent from it. \<open>limit_missing\<close> adds the third case that the code counts
  as missing: the key is there and stores \<open>None\<close>.
\<close>

definition limits_mapping :: "V1Container \<Rightarrow> (string \<rightharpoonup> string option) option" where
  "limits_mapping c = (case c_resources c of None \<Rightarrow> None | Some r \<Rightarrow> limits r)"

definition key_absent :: "string \<Rightarrow> V1Container \<Rightarrow> bool" where
  "key_absent k c = (case limits_mapping c of None \<Rightarrow> True | Some m \<Rightarrow> k \<notin> dom m)"

definition limit_missing :: "string \<Rightarrow> V1Container \<Rightarrow> bool" where
  "limit_missing k c =
     (case limits_mapping c of None \<Rightarrow> True | Some m \<Rightarrow> k \<notin> dom m \<or> m k = Some None)"

definition finding_of :: "V1Pod \<times> V1Container \<Rightarrow> ContainerLimitIssue" where
  "finding_of pc =
     \<lparr>namespace = meta_namespace (metadata (fst pc)),
      pod_name = meta_name (metadata (fst pc)),
      container_name = c_name (snd pc),
      missing_cpu_limit = limit_missing ''cpu'' (snd pc),
      missing_memory_limit = limit_missing ''memory'' (snd pc)\<rparr>"

definition flagged :: "V1Pod \<times> V1Container \<Rightarrow> bool" where
  "flagged pc = (missing_cpu_limit (finding_of pc) \<or> missing_memory_limit (finding_of pc))"

text \<open>
  The positions, in the nested iteration order, of the containers that miss a limit.
\<close>

definition emitting_positions :: "V1Pod list \<Rightarrow> nat list" where
  "emitting_positions items =
     filter (\<lambda>i. flagged (snapshot_containers items ! i)) [0..<length (snapshot_containers items)]"

section \<open>Words of the specification about the annotator\<close>

text \<open>The pod a Finding belongs to, and the key the grouping loop builds from it.\<close>

definition pod_of :: "ContainerLimitIssue \<Rightarrow> string \<times> string" where
  "pod_of issue = (namespace issue, pod_name issue)"

definition pod_key :: "string \<times> string \<Rightarrow> string" where
  "pod_key p = fst p @ ''/'' @ snd p"

text \<open>The distinct pods of a Finding sequence, each at its first occurrence.\<close>

definition first_pods :: "ContainerLimitIssue list \<Rightarrow> (string \<times> string) list" where
  "first_pods issues = rev (remdups (rev (map pod_of issues)))"

text \<open>The logical OR of a flag over every Finding of a pod's group.\<close>

definition group_missing_cpu :: "ContainerLimitIssue list \<Rightarrow> string \<times> string \<Rightarrow> bool" where
  "group_missing_cpu issues p = list_ex (\<lambda>f. pod_of f = p \<and> missing_cpu_limit f) issues"

definition group_missing_memory :: "ContainerLimitIssue list \<Rightarrow> string \<times> string \<Rightarrow> bool" where
  "group_missing_memory issues p = list_ex (\<lambda>f. pod_of f = p \<and> missing_memory_limit f) issues"

text \<open>The label by priority: both, only cpu, only memory.\<close>

definition label :: "bool \<Rightarrow> bool \<Rightarrow> string" where
  "label cpu mem =
     (if cpu \<and> mem then ''no-limits'' else if cpu then ''no-cpu-limit'' else ''no-memory-limit'')"

definition expected_call :: "ContainerLimitIssue list \<Rightarrow> string \<times> string \<Rightarrow> patch_call" where
  "expected_call issues p =
     \<lparr>pc_namespace = fst p, pc_name = snd p,
      pc_warning = label (group_missing_cpu issues p) (group_missing_memory issues p)\<rparr>"

definition expected_calls :: "ContainerLimitIssue list \<Rightarrow> patch_call list" where
  "expected_calls issues = map (expected_call issues) (first_pods issues)"

definition call_pod :: "patch_call \<Rightarrow> string \<times> string" where
  "call_pod c = (pc_namespace c, pc_name c)"

text \<open>
  The Finding sequences the annotator is given. Every Finding has a flag set: this is
  the invariant of a Finding, and the evaluator emits no other. The namespace of a
  Finding is the name of a namespace of the cluster, and such a name holds no \<open>/\<close>.
\<close>

definition flags_set :: "ContainerLimitIssue list \<Rightarrow> bool" where
  "flags_set issues = (\<forall>f \<in> set issues. missing_cpu_limit f \<or> missing_memory_limit f)"

definition cluster_namespaces :: "ContainerLimitIssue list \<Rightarrow> bool" where
  "cluster_namespaces issues = (\<forall>f \<in> set issues. CHR ''/'' \<notin> set (namespace f))"

text \<open>
  Findings with different pods never share a grouping key. It holds whenever no namespace
  contains the character \<open>/\<close>.
\<close>

definition keys_separate_pods :: "ContainerLimitIssue list \<Rightarrow> bool" where
  "keys_separate_pods issues =
     (\<forall>f \<in> set issues. \<forall>g \<in> set issues. pod_key_of f = pod_key_of g \<longrightarrow> pod_of f = pod_of g)"

text \<open>
  The pod annotation summary of a pod: its names and the two aggregates. \<open>fresh_info\<close>
  and \<open>merge_info\<close> are what one pass of the grouping loop stores for a new key and for
  a key already present; \<open>call_of_info\<close> is the patch call a summary leads to.
\<close>

definition group_info :: "ContainerLimitIssue list \<Rightarrow> string \<times> string \<Rightarrow> pod_info" where
  "group_info issues p =
     \<lparr>pi_namespace = fst p, pi_pod_name = snd p,
      pi_missing_cpu = group_missing_cpu issues p,
      pi_missing_memory = group_missing_memory issues p\<rparr>"

definition fresh_info :: "ContainerLimitIssue \<Rightarrow> pod_info" where
  "fresh_info issue =
     \<lparr>pi_namespace = namespace issue, pi_pod_name = pod_name issue,
      pi_missing_cpu = missing_cpu_limit issue,
      pi_missing_memory = missing_memory_limit issue\<rparr>"

definition merge_info :: "ContainerLimitIssue \<Rightarrow> pod_info \<Rightarrow> pod_info" where
  "merge_info issue v =
     v\<lparr>pi_missing_cpu := pi_missing_cpu v \<or> missing_cpu_limit issue,
       pi_missing_memory := pi_missing_memory v \<or> missing_memory_limit issue\<rparr>"

definition call_of_info :: "pod_info \<Rightarrow> patch_call" where
  "call_of_info info =
     \<lparr>pc_namespace = pi_namespace info, pc_name = pi_pod_name info,
      pc_warning = label (pi_missing_cpu info) (pi_missing_memory info)\<rparr>"

definition has_flag :: "pod_info \<Rightarrow> bool" where
  "has_flag info = (pi_missing_cpu info \<or> pi_missing_memory info)"

text \<open>The distinct grouping keys of a Finding sequence, each at its first occurrence.\<close>

definition first_keys :: "ContainerLimitIssue list \<Rightarrow> string list" where
  "first_keys issues = rev (remdups (rev (map pod_key_of issues)))"

section \<open>Readers of the three reports\<close>

text \<open>
  The five logical field values of a Finding, and readers that take them back out of
  the text of each report. A reader gives \<open>None\<close> for a text that is not a report of
  its format. \<open>split_on c\<close> is \<open>text.split(c)\<close> for a one-character separator.
\<close>

type_synonym fields = "string \<times> string \<times> string \<times> bool \<times> bool"

definition fields_of :: "ContainerLimitIssue \<Rightarrow> fields" where
  "fields_of issue =
     (namespace issue, pod_name issue, container_name issue,
      missing_cpu_limit issue, missing_memory_limit issue)"

fun push_char :: "char \<Rightarrow> string list \<Rightarrow> string list" where
  "push_char x [] = [[x]]"
| "push_char x (y # ys) = (x # y) # ys"

fun split_on :: "char \<Rightarrow> string \<Rightarrow> string list" where
  "split_on c [] = [[]]"
| "split_on c (x # xs) = (if x = c then [] # split_on c xs else push_char x (split_on c xs))"

subsection \<open>The delimited report\<close>

text \<open>
  The first line is the header, which names the five columns. Every other line, split
  at the double quotes, is five quoted fields in the order of the header, with a comma
  between two of them; the last two fields are \<open>True\<close> or \<open>False\<close>.
\<close>

definition read_py_bool :: "string \<Rightarrow> bool option" where
  "read_py_bool s =
     (if s = ''True'' then Some True else if s = ''False'' then Some False else None)"

fun csv_fields :: "string list \<Rightarrow> fields option" where
  "csv_fields [p, a, s1, b, s2, c, s3, d, s4, e, q] =
     (if p = [] \<and> s1 = '','' \<and> s2 = '','' \<and> s3 = '','' \<and> s4 = '','' \<and> q = []
      then (case read_py_bool d of
              None \<Rightarrow> None
            | Some cpu \<Rightarrow>
                (case read_py_bool e of
                   None \<Rightarrow> None
                 | Some mem \<Rightarrow> Some (a, b, c, cpu, mem)))
      else None)"
| "csv_fields _ = None"

definition read_csv_line :: "string \<Rightarrow> fields option" where
  "read_csv_line line = csv_fields (split_on dquote line)"

definition read_csv :: "string \<Rightarrow> fields list option" where
  "read_csv text =
     (case split_on CHR 0x0A text of
        [] \<Rightarrow> None
      | header # lines \<Rightarrow>
          if header = ''NAMESPACE,POD_NAME,CONTAINER_NAME,MISSING_CPU_LIMIT,MISSING_MEMORY_LIMIT''
          then those (map read_csv_line lines)
          else None)"

subsection \<open>The tabular report\<close>

text \<open>
  A line of cells, split at the vertical bars, is five cells between an empty first and
  an empty last piece. A cell is a space, the value, the padding and a space: the
  reader takes the first space away and the spaces at the end, and keeps those inside
  the value.
\<close>

definition rstrip :: "string \<Rightarrow> string" where
  "rstrip s = rev (dropWhile (\<lambda>c. c = CHR '' '') (rev s))"

definition read_cell :: "string \<Rightarrow> string option" where
  "read_cell cell =
     (case cell of
        [] \<Rightarrow> None
      | c # cs \<Rightarrow> if c = CHR '' '' \<and> cs \<noteq> [] \<and> last cs = CHR '' '' then Some (rstrip cs) else None)"

fun table_pieces :: "string list \<Rightarrow> string list option" where
  "table_pieces [p, a, b, c, d, e, q] =
     (if p = [] \<and> q = [] then those (map read_cell [a, b, c, d, e]) else None)"
| "table_pieces _ = None"

definition read_table_line :: "string \<Rightarrow> string list option" where
  "read_table_line line = table_pieces (split_on CHR ''|'' line)"

definition read_yes_no :: "string \<Rightarrow> bool option" where
  "read_yes_no s = (if s = ''YES'' then Some True else if s = ''NO'' then Some False else None)"

fun row_fields :: "string list \<Rightarrow> fields option" where
  "row_fields [a, b, c, d, e] =
     (case read_yes_no d of
        None \<Rightarrow> None
      | Some cpu \<Rightarrow>
          (case read_yes_no e of
             None \<Rightarrow> None
           | Some mem \<Rightarrow> Some (a, b, c, cpu, mem)))"
| "row_fields _ = None"

definition read_table_row :: "string \<Rightarrow> fields option" where
  "read_table_row line =
     (case read_table_line line of None \<Rightarrow> None | Some cells \<Rightarrow> row_fields cells)"

definition is_border :: "string \<Rightarrow> bool" where
  "is_border s = (s \<noteq> [] \<and> list_all (\<lambda>c. c = CHR ''+'' \<or> c = CHR ''-'') s)"

text \<open>
  The table: a border, the line of the five column headers, the same border, one line
  for each Finding and the border again. The text for no Finding is the sentence.
\<close>

definition read_table :: "string \<Rightarrow> fields list option" where
  "read_table text =
     (if text = ''No containers with missing resource limits found.'' then Some []
      else (case split_on CHR 0x0A text of
              border # header_line # second # rest \<Rightarrow>
                if rest \<noteq> [] \<and> is_border border \<and> second = border \<and> last rest = border
                   \<and> read_table_line header_line = Some headers
                then those (map read_table_row (butlast rest))
                else None
            | _ \<Rightarrow> None))"

subsection \<open>The structured report\<close>

text \<open>
  \<open>expect lit s\<close> takes the text \<open>lit\<close> from the front of \<open>s\<close>. \<open>unhex\<close> is the value
  of a hexadecimal digit.
\<close>

definition expect :: "string \<Rightarrow> string \<Rightarrow> string option" where
  "expect lit s = (if take (length lit) s = lit then Some (drop (length lit) s) else None)"

definition unhex :: "char \<Rightarrow> nat option" where
  "unhex c =
     (let n = (of_char c :: nat)
      in if 48 \<le> n \<and> n \<le> 57 then Some (n - 48)
         else if 97 \<le> n \<and> n \<le> 102 then Some (n - 87)
         else if 65 \<le> n \<and> n \<le> 70 then Some (n - 55)
         else None)"

text \<open>
  The escape that follows a backslash: the character it stands for and the number of
  characters it takes. Code points from 256 on are outside the strings of the model.
\<close>

definition read_escape :: "string \<Rightarrow> (char \<times> nat) option" where
  "read_escape s =
     (case s of
        [] \<Rightarrow> None
      | e # t \<Rightarrow>
          if e = dquote then Some (dquote, 1)
          else if e = backslash then Some (backslash, 1)
          else if e = CHR ''/'' then Some (CHR ''/'', 1)
          else if e = CHR ''b'' then Some (CHR 0x08, 1)
          else if e = CHR ''f'' then Some (CHR 0x0C, 1)
          else if e = CHR ''n'' then Some (CHR 0x0A, 1)
          else if e = CHR ''r'' then Some (CHR 0x0D, 1)
          else if e = CHR ''t'' then Some (CHR 0x09, 1)
          else if e = CHR ''u'' then
            (case map unhex (take 4 t) of
               [Some a, Some b, Some c, Some d] \<Rightarrow>
                 if a = 0 \<and> b = 0 then Some (char_of (16 * c + d), 5) else None
             | _ \<Rightarrow> None)
          else None)"

text \<open>
  A string after its opening quote: the characters up to the closing quote, escapes
  undone, and the text after the closing quote.
\<close>

function read_string_body :: "string \<Rightarrow> (string \<times> string) option" where
  "read_string_body [] = None"
| "read_string_body (c # cs) =
     (if c = dquote then Some ([], cs)
      else if c = backslash then
        (case read_escape cs of
           None \<Rightarrow> None
         | Some (d, k) \<Rightarrow>
             map_option (\<lambda>(s, rest). (d # s, rest)) (read_string_body (drop k cs)))
      else map_option (\<lambda>(s, rest). (c # s, rest)) (read_string_body cs))"
  by pat_completeness auto
termination
  by (relation "measure length") auto

definition read_json_string :: "string \<Rightarrow> (string \<times> string) option" where
  "read_json_string s =
     (case s of [] \<Rightarrow> None | c # cs \<Rightarrow> if c = dquote then read_string_body cs else None)"

definition read_json_bool :: "string \<Rightarrow> (bool \<times> string) option" where
  "read_json_bool s =
     (case expect ''true'' s of
        Some rest \<Rightarrow> Some (True, rest)
      | None \<Rightarrow> (case expect ''false'' s of Some rest \<Rightarrow> Some (False, rest) | None \<Rightarrow> None))"

text \<open>A member of a dict: the key in quotes, a colon, a space and the value.\<close>

definition read_key :: "string \<Rightarrow> string \<Rightarrow> string option" where
  "read_key key s = expect ([dquote] @ key @ [dquote] @ '': '') s"

definition read_string_member :: "string \<Rightarrow> string \<Rightarrow> (string \<times> string) option" where
  "read_string_member key s =
     (case read_key key s of None \<Rightarrow> None | Some rest \<Rightarrow> read_json_string rest)"

definition read_bool_member :: "string \<Rightarrow> string \<Rightarrow> (bool \<times> string) option" where
  "read_bool_member key s =
     (case read_key key s of None \<Rightarrow> None | Some rest \<Rightarrow> read_json_bool rest)"

text \<open>
  A dict of the report: the five members under their keys, in the order of the
  fields, each on a line of its own. The result is the row and the text after the dict.
\<close>

definition read_json_dict :: "string \<Rightarrow> (fields \<times> string) option" where
  "read_json_dict s =
     Option.bind (expect (''{'' @ newline @ ''    '') s) (\<lambda>s1.
     Option.bind (read_string_member ''namespace'' s1) (\<lambda>(a, s2).
     Option.bind (expect ('','' @ newline @ ''    '') s2) (\<lambda>s3.
     Option.bind (read_string_member ''pod_name'' s3) (\<lambda>(b, s4).
     Option.bind (expect ('','' @ newline @ ''    '') s4) (\<lambda>s5.
     Option.bind (read_string_member ''container_name'' s5) (\<lambda>(c, s6).
     Option.bind (expect ('','' @ newline @ ''    '') s6) (\<lambda>s7.
     Option.bind (read_bool_member ''missing_cpu_limit'' s7) (\<lambda>(d, s8).
     Option.bind (expect ('','' @ newline @ ''    '') s8) (\<lambda>s9.
     Option.bind (read_bool_member ''missing_memory_limit'' s9) (\<lambda>(e, s10).
     Option.bind (expect (newline @ ''  }'') s10) (\<lambda>s11.
     Some ((a, b, c, d, e), s11))))))))))))"

text \<open>
  The dicts of the list, up to the closing bracket. The first argument bounds the
  number of dicts read; \<open>read_json\<close> gives the length of the text, and every dict takes
  at least one character.
\<close>

fun read_json_dicts :: "nat \<Rightarrow> string \<Rightarrow> fields list option" where
  "read_json_dicts 0 s = None"
| "read_json_dicts (Suc n) s =
     (case read_json_dict s of
        None \<Rightarrow> None
      | Some (f, rest) \<Rightarrow>
          if rest = newline @ '']'' then Some [f]
          else (case expect ('','' @ newline @ ''  '') rest of
                  None \<Rightarrow> None
                | Some s' \<Rightarrow> map_option (Cons f) (read_json_dicts n s')))"

definition read_json :: "string \<Rightarrow> fields list option" where
  "read_json text =
     (if text = ''[]'' then Some []
      else (case expect (''['' @ newline @ ''  '') text of
              None \<Rightarrow> None
            | Some s \<Rightarrow> read_json_dicts (length s) s))"

subsection \<open>Names of the cluster\<close>

text \<open>
  The names the cluster accepts for namespaces, pods and containers are made of
  lower-case letters, digits, \<open>-\<close> and \<open>.\<close>.
\<close>

definition name_char :: "char \<Rightarrow> bool" where
  "name_char c =
     (let n = (of_char c :: nat)
      in (97 \<le> n \<and> n \<le> 122) \<or> (48 \<le> n \<and> n \<le> 57) \<or> c = CHR ''-'' \<or> c = CHR ''.'')"

definition cluster_names :: "ContainerLimitIssue list \<Rightarrow> bool" where
  "cluster_names issues =
     (\<forall>f \<in> set issues.
        list_all name_char (namespace f) \<and> list_all name_char (pod_name f)
        \<and> list_all name_char (container_name f))"

section \<open>Example inputs\<close>

text \<open>
  Pod \<open>ns-a/web-1\<close> with the containers \<open>app\<close> (a cpu limit only), \<open>db\<close> (both keys,
  with the values \<open>0\<close> and the empty string) and \<open>sidecar\<close> (no resources).
\<close>

definition app_container :: V1Container where
  "app_container =
     \<lparr>c_name = ''app'', c_resources = Some \<lparr>limits = Some [''cpu'' \<mapsto> Some ''500m'']\<rparr>\<rparr>"

definition sidecar_container :: V1Container where
  "sidecar_container = \<lparr>c_name = ''sidecar'', c_resources = None\<rparr>"

definition db_limits :: "string \<rightharpoonup> string option" where
  "db_limits = [''cpu'' \<mapsto> Some ''0'', ''memory'' \<mapsto> Some []]"

definition db_container :: V1Container where
  "db_container = \<lparr>c_name = ''db'', c_resources = Some \<lparr>limits = Some db_limits\<rparr>\<rparr>"

text \<open>
  A container whose limits mapping has both keys, \<open>cpu\<close> storing \<open>None\<close>, and the same
  container with the value \<open>0\<close> there: the two mappings have the same keys.
\<close>

definition null_limits :: "string \<rightharpoonup> string option" where
  "null_limits = [''cpu'' \<mapsto> None, ''memory'' \<mapsto> Some ''1Gi'']"

definition null_container :: V1Container where
  "null_container = \<lparr>c_name = ''cache'', c_resources = Some \<lparr>limits = Some null_limits\<rparr>\<rparr>"

definition zero_limits :: "string \<rightharpoonup> string option" where
  "zero_limits = [''cpu'' \<mapsto> Some ''0'', ''memory'' \<mapsto> Some ''1Gi'']"

definition zero_container :: V1Container where
  "zero_container = \<lparr>c_name = ''cache'', c_resources = Some \<lparr>limits = Some zero_limits\<rparr>\<rparr>"

definition web_pod :: V1Pod where
  "web_pod =
     \<lparr>metadata = \<lparr>meta_namespace = ''ns-a'', meta_name = ''web-1''\<rparr>,
      spec = \<lparr>containers = [app_container, db_container, sidecar_container]\<rparr>\<rparr>"

text \<open>A cluster that lists \<open>web_pod\<close> and accepts every patch.\<close>

definition web_cluster :: CoreV1Api where
  "web_cluster =
     \<lparr>list_namespaced_pod = (\<lambda>n. Inr [web_pod]),
      list_pod_for_all_namespaces = Inr [web_pod],
      patch_namespaced_pod = (\<lambda>calls patch. None)\<rparr>"

text \<open>A cluster whose listing raises and whose patches are all refused.\<close>

definition broken_cluster :: CoreV1Api where
  "broken_cluster =
     \<lparr>list_namespaced_pod = (\<lambda>n. Inl ApiException),
      list_pod_for_all_namespaces = Inl OtherException,
      patch_namespaced_pod = (\<lambda>calls patch. Some ApiException)\<rparr>"

text \<open>A cluster with no pods.\<close>

definition empty_cluster :: CoreV1Api where
  "empty_cluster =
     \<lparr>list_namespaced_pod = (\<lambda>n. Inr []),
      list_pod_for_all_namespaces = Inr [],
      patch_namespaced_pod = (\<lambda>calls patch. None)\<rparr>"

definition app_issue :: ContainerLimitIssue where
  "app_issue =
     \<lparr>namespace = ''ns-a'', pod_name = ''web-1'', container_name = ''app'',
      missing_cpu_limit = False, missing_memory_limit = True\<rparr>"

definition sidecar_issue :: ContainerLimitIssue where
  "sidecar_issue =
     \<lparr>namespace = ''ns-a'', pod_name = ''web-1'', container_name = ''sidecar'',
      missing_cpu_limit = True, missing_memory_limit = True\<rparr>"

definition table_args :: arguments where
  "table_args = \<lparr>arg_output = ''table'', arg_namespace = None, arg_annotate = True\<rparr>"

text \<open>A Finding of another pod, \<open>ns-b/api-1\<close>.\<close>

definition api_issue :: ContainerLimitIssue where
  "api_issue =
     \<lparr>namespace = ''ns-b'', pod_name = ''api-1'', container_name = ''main'',
      missing_cpu_limit = True, missing_memory_limit = False\<rparr>"

text \<open>A record that is not a Finding of the evaluator: no flag is set.\<close>

definition unflagged_issue :: ContainerLimitIssue where
  "unflagged_issue =
     \<lparr>namespace = ''ns-c'', pod_name = ''job-1'', container_name = ''run'',
      missing_cpu_limit = False, missing_memory_limit = False\<rparr>"

text \<open>
  Runs of \<open>connect\<close>: the in-cluster path gives the broken cluster; it raises
  \<open>ConfigException\<close> and the external configuration gives the empty cluster; it raises
  another exception while the external configuration would have given \<open>web_cluster\<close>;
  both raise \<open>ConfigException\<close>; the in-cluster path gives \<open>web_cluster\<close>.
\<close>

definition broken_env :: cluster_env where
  "broken_env = \<lparr>incluster = Inr broken_cluster, kubeconfig = Inl ConfigException\<rparr>"

definition empty_env :: cluster_env where
  "empty_env = \<lparr>incluster = Inl ConfigException, kubeconfig = Inr empty_cluster\<rparr>"

definition unexpected_env :: cluster_env where
  "unexpected_env = \<lparr>incluster = Inl OtherException, kubeconfig = Inr web_cluster\<rparr>"

definition no_config_env :: cluster_env where
  "no_config_env = \<lparr>incluster = Inl ConfigException, kubeconfig = Inl ConfigException\<rparr>"

definition web_env :: cluster_env where
  "web_env = \<lparr>incluster = Inr web_cluster, kubeconfig = Inl ConfigException\<rparr>"

section \<open>Properties of the evaluator\<close>

lemma dict_get_None: "(dict_get m k = None) = (k \<notin> dom m \<or> m k = Some None)"
  by (cases "m k") (auto simp: dict_get_def)

lemma check_container_eq:
  "check_container ns pn acc c =
     (if limit_missing ''cpu'' c \<or> limit_missing ''memory'' c
      then acc @ [\<lparr>namespace = ns, pod_name = pn, container_name = c_name c,
                   missing_cpu_limit = limit_missing ''cpu'' c,
                   missing_memory_limit = limit_missing ''memory'' c\<rparr>]
      else acc)"
  by (simp add: check_container_def limit_missing_def limits_mapping_def Let_def dict_get_None
           split: option.splits)

lemma foldl_check_container:
  "foldl (check_container (meta_namespace (metadata pod)) (meta_name (metadata pod))) acc cs =
     acc @ map finding_of (filter flagged (map (Pair pod) cs))"
proof (induction cs arbitrary: acc)
  case Nil
  show ?case by simp
next
  case (Cons c cs)
  let ?step = "check_container (meta_namespace (metadata pod)) (meta_name (metadata pod))"
  have "foldl ?step acc (c # cs) = foldl ?step (?step acc c) cs"
    by simp
  also have "\<dots> = ?step acc c @ map finding_of (filter flagged (map (Pair pod) cs))"
    by (rule Cons.IH)
  also have "?step acc c = acc @ map finding_of (filter flagged [(pod, c)])"
    by (simp add: check_container_eq finding_of_def flagged_def)
  finally show ?case
    by simp
qed

lemma check_pod_eq:
  "check_pod acc pod =
     acc @ map finding_of (filter flagged (map (Pair pod) (containers (spec pod))))"
  by (simp add: check_pod_def Let_def foldl_check_container)

lemma foldl_check_pod:
  "foldl check_pod acc items = acc @ map finding_of (filter flagged (snapshot_containers items))"
proof (induction items arbitrary: acc)
  case Nil
  show ?case by (simp add: snapshot_containers_def)
next
  case (Cons pod items)
  have "foldl check_pod acc (pod # items) = foldl check_pod (check_pod acc pod) items"
    by simp
  also have "\<dots> = check_pod acc pod @ map finding_of (filter flagged (snapshot_containers items))"
    by (rule Cons.IH)
  also have "check_pod acc pod =
      acc @ map finding_of (filter flagged (map (Pair pod) (containers (spec pod))))"
    by (rule check_pod_eq)
  finally show ?case
    by (simp add: snapshot_containers_def)
qed

lemma collect_issues_eq:
  "collect_issues items = map finding_of (filter flagged (snapshot_containers items))"
  by (simp add: collect_issues_def foldl_check_pod)

lemma get_containers_listed:
  "list_pods v1_client nso = Inr items \<Longrightarrow>
   get_containers_with_missing_limits v1_client nso
     = map finding_of (filter flagged (snapshot_containers items))"
  by (simp add: get_containers_with_missing_limits_def collect_issues_eq)

lemma get_containers_failed:
  "list_pods v1_client nso = Inl e \<Longrightarrow> get_containers_with_missing_limits v1_client nso = []"
  by (cases e) (simp_all add: get_containers_with_missing_limits_def)

lemma flagged_iff: "flagged (pod, c) = (limit_missing ''cpu'' c \<or> limit_missing ''memory'' c)"
  by (simp add: flagged_def finding_of_def)

lemma both_values_not_missing:
  "c_resources c = Some r \<Longrightarrow> limits r = Some m \<Longrightarrow> m ''cpu'' = Some (Some v)
   \<Longrightarrow> m ''memory'' = Some (Some w)
   \<Longrightarrow> \<not> limit_missing ''cpu'' c \<and> \<not> limit_missing ''memory'' c"
  by (simp add: limit_missing_def limits_mapping_def dom_def)

lemma limit_missing_cases:
  "limit_missing k c =
     (key_absent k c \<or> (\<exists>m. limits_mapping c = Some m \<and> m k = Some None))"
  by (cases "limits_mapping c") (simp_all add: limit_missing_def key_absent_def)

lemma list_pods_web: "list_pods web_cluster None = Inr [web_pod]"
  by (simp add: list_pods_def web_cluster_def)

lemma check_null_container:
  "check_container ''ns-a'' ''web-1'' [] null_container =
     [\<lparr>namespace = ''ns-a'', pod_name = ''web-1'', container_name = ''cache'',
       missing_cpu_limit = True, missing_memory_limit = False\<rparr>]"
  by (simp add: check_container_def dict_get_def null_container_def null_limits_def)

text \<open>
  Claim C1, as amended. When the listing succeeds, the evaluator returns exactly the
  Findings of the (pod, container) pairs of the snapshot that have \<open>missing_cpu_limit\<close>
  or \<open>missing_memory_limit\<close> true, one Finding for each such pair and none for the
  others: the loop body appends one Finding if and only if one of the two booleans is
  true, and leaves the list as it is otherwise. A container whose limits mapping stores
  a string under the key \<open>cpu\<close> and a string under the key \<open>memory\<close> is never given a
  Finding, whatever the two strings are (\<open>0\<close> and the empty string included).
\<close>

theorem finding_iff_limit_missing:
  "(list_pods v1_client nso = Inr items \<longrightarrow>
      get_containers_with_missing_limits v1_client nso
        = map finding_of (filter flagged (snapshot_containers items)))
   \<and> ((\<exists>f. check_container ns pn acc c = acc @ [f]) = flagged (pod, c))
   \<and> ((check_container ns pn acc c = acc) = (\<not> flagged (pod, c)))
   \<and> (c_resources c = Some r \<and> limits r = Some m
       \<and> m ''cpu'' = Some (Some v) \<and> m ''memory'' = Some (Some w)
        \<longrightarrow> check_container ns pn acc c = acc)"
proof (intro conjI impI)
  assume "list_pods v1_client nso = Inr items"
  then show "get_containers_with_missing_limits v1_client nso
        = map finding_of (filter flagged (snapshot_containers items))"
    by (rule get_containers_listed)
next
  show "(\<exists>f. check_container ns pn acc c = acc @ [f]) = flagged (pod, c)"
    by (simp add: check_container_eq flagged_iff)
next
  show "(check_container ns pn acc c = acc) = (\<not> flagged (pod, c))"
    by (simp add: check_container_eq flagged_iff)
next
  assume "c_resources c = Some r \<and> limits r = Some m
       \<and> m ''cpu'' = Some (Some v) \<and> m ''memory'' = Some (Some w)"
  then have "\<not> limit_missing ''cpu'' c \<and> \<not> limit_missing ''memory'' c"
    using both_values_not_missing by blast
  then show "check_container ns pn acc c = acc"
    by (simp add: check_container_eq)
qed

theorem finding_iff_limit_missing_witness:
  "get_containers_with_missing_limits web_cluster None = [app_issue, sidecar_issue]
   \<and> check_container ''ns-a'' ''web-1'' [app_issue] db_container = [app_issue]"
  using finding_iff_limit_missing [of web_cluster None "[web_pod]" "''ns-a''" "''web-1''"
      "[app_issue]" db_container web_pod "\<lparr>limits = Some db_limits\<rparr>" db_limits "''0''" "[]"]
  by (simp add: list_pods_web db_container_def db_limits_def snapshot_containers_def web_pod_def
      app_container_def sidecar_container_def flagged_def finding_of_def limit_missing_def
      limits_mapping_def app_issue_def sidecar_issue_def)

text \<open>
  Claim C1 as stated fails on \<open>null_container\<close>: its limits mapping has both the key
  \<open>cpu\<close> and the key \<open>memory\<close>, and the loop body still appends a Finding for it, with
  \<open>missing_cpu_limit\<close> true, because the value stored under \<open>cpu\<close> is \<open>None\<close>.
\<close>

theorem finding_iff_limit_missing_counterexample:
  "''cpu'' \<in> dom null_limits \<and> ''memory'' \<in> dom null_limits
   \<and> c_resources null_container = Some \<lparr>limits = Some null_limits\<rparr>
   \<and> check_container ''ns-a'' ''web-1'' [] null_container =
       [\<lparr>namespace = ''ns-a'', pod_name = ''web-1'', container_name = ''cache'',
         missing_cpu_limit = True, missing_memory_limit = False\<rparr>]"
  using check_null_container by (simp add: null_limits_def null_container_def)

text \<open>
  Claim C2, as amended. For every container the loop body computes \<open>missing_cpu_limit\<close>
  as "the limits mapping is absent, or has no key \<open>cpu\<close>, or stores \<open>None\<close> under
  \<open>cpu\<close>" and \<open>missing_memory_limit\<close> in the same way for \<open>memory\<close>, and records both
  in the Finding it appends, also when one alone suffices. Nothing else of a stored
  value is inspected: two mappings with the same keys that store no \<open>None\<close> give the
  same result. A container without a limits mapping (no resources, or resources without
  limits) gets both booleans true; a mapping whose only key is \<open>cpu\<close>, storing a
  string, gives \<open>missing_cpu_limit = False\<close> and \<open>missing_memory_limit = True\<close>.
\<close>

theorem booleans_by_stored_limit:
  "check_container ns pn acc c =
     (if limit_missing ''cpu'' c \<or> limit_missing ''memory'' c
      then acc @ [\<lparr>namespace = ns, pod_name = pn, container_name = c_name c,
                   missing_cpu_limit = limit_missing ''cpu'' c,
                   missing_memory_limit = limit_missing ''memory'' c\<rparr>]
      else acc)
   \<and> limit_missing k c =
       (key_absent k c \<or> (\<exists>d. limits_mapping c = Some d \<and> d k = Some None))
   \<and> collect_issues items
       = map finding_of
           (filter (\<lambda>pc. limit_missing ''cpu'' (snd pc) \<or> limit_missing ''memory'' (snd pc))
              (snapshot_containers items))
   \<and> (dom m = dom m' \<and> None \<notin> ran m \<and> None \<notin> ran m' \<longrightarrow>
        check_container ns pn acc \<lparr>c_name = n, c_resources = Some \<lparr>limits = Some m\<rparr>\<rparr>
        = check_container ns pn acc \<lparr>c_name = n, c_resources = Some \<lparr>limits = Some m'\<rparr>\<rparr>)
   \<and> check_container ns pn acc \<lparr>c_name = n, c_resources = None\<rparr>
       = acc @ [\<lparr>namespace = ns, pod_name = pn, container_name = n,
                  missing_cpu_limit = True, missing_memory_limit = True\<rparr>]
   \<and> check_container ns pn acc \<lparr>c_name = n, c_resources = Some \<lparr>limits = None\<rparr>\<rparr>
       = acc @ [\<lparr>namespace = ns, pod_name = pn, container_name = n,
                  missing_cpu_limit = True, missing_memory_limit = True\<rparr>]
   \<and> (dom m = {''cpu''} \<and> None \<notin> ran m \<longrightarrow>
        check_container ns pn acc \<lparr>c_name = n, c_resources = Some \<lparr>limits = Some m\<rparr>\<rparr>
        = acc @ [\<lparr>namespace = ns, pod_name = pn, container_name = n,
                   missing_cpu_limit = False, missing_memory_limit = True\<rparr>])"
proof (intro conjI impI)
  show "check_container ns pn acc c =
     (if limit_missing ''cpu'' c \<or> limit_missing ''memory'' c
      then acc @ [\<lparr>namespace = ns, pod_name = pn, container_name = c_name c,
                   missing_cpu_limit = limit_missing ''cpu'' c,
                   missing_memory_limit = limit_missing ''memory'' c\<rparr>]
      else acc)"
    by (rule check_container_eq)
next
  show "limit_missing k c =
       (key_absent k c \<or> (\<exists>d. limits_mapping c = Some d \<and> d k = Some None))"
    by (rule limit_missing_cases)
next
  have "flagged = (\<lambda>pc. limit_missing ''cpu'' (snd pc) \<or> limit_missing ''memory'' (snd pc))"
    by (rule ext) (simp add: flagged_def finding_of_def)
  then show "collect_issues items
       = map finding_of
           (filter (\<lambda>pc. limit_missing ''cpu'' (snd pc) \<or> limit_missing ''memory'' (snd pc))
              (snapshot_containers items))"
    using collect_issues_eq [of items] by simp
next
  assume h: "dom m = dom m' \<and> None \<notin> ran m \<and> None \<notin> ran m'"
  have "(k \<notin> dom m \<or> m k = Some None) = (k \<notin> dom m' \<or> m' k = Some None)" for k
  proof -
    from h have "m k \<noteq> Some None" and "m' k \<noteq> Some None"
      by (auto simp: ran_def)
    with h show ?thesis
      by simp
  qed
  then show "check_container ns pn acc \<lparr>c_name = n, c_resources = Some \<lparr>limits = Some m\<rparr>\<rparr>
        = check_container ns pn acc \<lparr>c_name = n, c_resources = Some \<lparr>limits = Some m'\<rparr>\<rparr>"
    by (simp add: check_container_eq limit_missing_def limits_mapping_def)
next
  show "check_container ns pn acc \<lparr>c_name = n, c_resources = None\<rparr>
       = acc @ [\<lparr>namespace = ns, pod_name = pn, container_name = n,
                  missing_cpu_limit = True, missing_memory_limit = True\<rparr>]"
    by (simp add: check_container_def)
next
  show "check_container ns pn acc \<lparr>c_name = n, c_resources = Some \<lparr>limits = None\<rparr>\<rparr>
       = acc @ [\<lparr>namespace = ns, pod_name = pn, container_name = n,
                  missing_cpu_limit = True, missing_memory_limit = True\<rparr>]"
    by (simp add: check_container_def)
next
  assume h: "dom m = {''cpu''} \<and> None \<notin> ran m"
  then have "''cpu'' \<in> dom m" and "''memory'' \<notin> dom m"
    by simp_all
  moreover from h have "m ''cpu'' \<noteq> Some None"
    by (auto simp: ran_def)
  ultimately have "\<not> (''cpu'' \<notin> dom m \<or> m ''cpu'' = Some None)"
    and "''memory'' \<notin> dom m \<or> m ''memory'' = Some None"
    by simp_all
  then show "check_container ns pn acc \<lparr>c_name = n, c_resources = Some \<lparr>limits = Some m\<rparr>\<rparr>
        = acc @ [\<lparr>namespace = ns, pod_name = pn, container_name = n,
                   missing_cpu_limit = False, missing_memory_limit = True\<rparr>]"
    by (simp add: check_container_eq limit_missing_def limits_mapping_def)
qed

theorem booleans_by_stored_limit_witness:
  "check_container ''ns-a'' ''web-1'' []
       \<lparr>c_name = ''app'', c_resources = Some \<lparr>limits = Some [''cpu'' \<mapsto> Some ''500m'']\<rparr>\<rparr>
     = [app_issue]
   \<and> check_container ''ns-a'' ''web-1'' []
       \<lparr>c_name = ''app'', c_resources = Some \<lparr>limits = Some [''cpu'' \<mapsto> Some ''500m'']\<rparr>\<rparr>
     = check_container ''ns-a'' ''web-1'' []
       \<lparr>c_name = ''app'', c_resources = Some \<lparr>limits = Some [''cpu'' \<mapsto> Some ''0'']\<rparr>\<rparr>"
proof -
  have d1: "dom [''cpu'' \<mapsto> Some ''500m''] = {''cpu''} \<and> None \<notin> ran [''cpu'' \<mapsto> Some ''500m'']"
    by simp
  have d2: "dom [''cpu'' \<mapsto> Some ''500m''] = dom [''cpu'' \<mapsto> Some ''0'']
      \<and> None \<notin> ran [''cpu'' \<mapsto> Some ''500m''] \<and> None \<notin> ran [''cpu'' \<mapsto> Some ''0'']"
    by simp
  note t = booleans_by_stored_limit [of "''ns-a''" "''web-1''" "[]" app_container "''cpu''"
      "[web_pod]" "[''cpu'' \<mapsto> Some ''500m'']" "[''cpu'' \<mapsto> Some ''0'']" "''app''"]
  have a: "check_container ''ns-a'' ''web-1'' []
       \<lparr>c_name = ''app'', c_resources = Some \<lparr>limits = Some [''cpu'' \<mapsto> Some ''500m'']\<rparr>\<rparr>
     = [app_issue]"
    using t [THEN conjunct2, THEN conjunct2, THEN conjunct2, THEN conjunct2, THEN conjunct2,
        THEN conjunct2, THEN mp, OF d1]
    by (simp add: app_issue_def)
  have b: "check_container ''ns-a'' ''web-1'' []
       \<lparr>c_name = ''app'', c_resources = Some \<lparr>limits = Some [''cpu'' \<mapsto> Some ''500m'']\<rparr>\<rparr>
     = check_container ''ns-a'' ''web-1'' []
       \<lparr>c_name = ''app'', c_resources = Some \<lparr>limits = Some [''cpu'' \<mapsto> Some ''0'']\<rparr>\<rparr>"
    using t [THEN conjunct2, THEN conjunct2, THEN conjunct2, THEN conjunct1, THEN mp, OF d2] .
  from a b show ?thesis
    by (rule conjI)
qed

text \<open>
  Claim C2 as stated fails on \<open>null_container\<close> and \<open>zero_container\<close>: their limits
  mappings have the same keys, \<open>cpu\<close> among them, so "mapping absent or key absent" is
  false for both; yet the first gets a Finding with \<open>missing_cpu_limit\<close> true and the
  second gets none. The stored value is inspected: \<open>None\<close> counts as missing.
\<close>

theorem booleans_by_stored_limit_counterexample:
  "dom null_limits = dom zero_limits
   \<and> \<not> key_absent ''cpu'' null_container
   \<and> check_container ''ns-a'' ''web-1'' [] null_container =
       [\<lparr>namespace = ''ns-a'', pod_name = ''web-1'', container_name = ''cache'',
         missing_cpu_limit = True, missing_memory_limit = False\<rparr>]
   \<and> check_container ''ns-a'' ''web-1'' [] zero_container = []"
proof (intro conjI)
  show "dom null_limits = dom zero_limits"
    by (simp add: null_limits_def zero_limits_def)
  show "\<not> key_absent ''cpu'' null_container"
    by (simp add: key_absent_def limits_mapping_def null_container_def null_limits_def)
  show "check_container ''ns-a'' ''web-1'' [] null_container =
       [\<lparr>namespace = ''ns-a'', pod_name = ''web-1'', container_name = ''cache'',
         missing_cpu_limit = True, missing_memory_limit = False\<rparr>]"
    by (rule check_null_container)
  show "check_container ''ns-a'' ''web-1'' [] zero_container = []"
    by (simp add: check_container_def dict_get_def zero_container_def zero_limits_def)
qed

lemma filter_by_positions:
  "filter P xs = map (nth xs) (filter (\<lambda>i. P (xs ! i)) [0..<length xs])"
proof -
  have "filter P xs = filter P (map (nth xs) [0..<length xs])"
    by (simp add: map_nth)
  also have "\<dots> = map (nth xs) (filter (\<lambda>i. P (xs ! i)) [0..<length xs])"
    by (simp add: filter_map o_def)
  finally show ?thesis .
qed

lemma emitting_positions_sorted: "sorted_wrt (<) (emitting_positions items)"
  by (simp add: emitting_positions_def sorted_wrt_filter)

lemma emitting_positions_bound:
  "i \<in> set (emitting_positions items) \<Longrightarrow> i < length (snapshot_containers items)"
  by (simp add: emitting_positions_def)

lemma collect_issues_positions:
  "collect_issues items
     = map (\<lambda>i. finding_of (snapshot_containers items ! i)) (emitting_positions items)"
proof -
  have "filter flagged (snapshot_containers items)
          = map (nth (snapshot_containers items)) (emitting_positions items)"
    unfolding emitting_positions_def by (rule filter_by_positions)
  then show ?thesis
    by (simp add: collect_issues_eq o_def)
qed

lemma collect_issues_subseq:
  "subseq (collect_issues items) (map finding_of (snapshot_containers items))"
  by (simp add: collect_issues_eq subseq_map)

lemma get_containers_collect:
  "list_pods v1_client nso = Inr items \<Longrightarrow>
   get_containers_with_missing_limits v1_client nso = collect_issues items"
  by (simp add: get_containers_with_missing_limits_def)

text \<open>
  Claim C3. When the listing succeeds, every Finding of the output is the Finding of a
  (pod, container) pair of the snapshot, at a position of the nested iteration order
  (pods in snapshot order, the containers of a pod in their order), and these positions
  grow strictly along the output: of two Findings, the earlier one comes from the earlier
  pair. The output is therefore a subsequence of the snapshot's pairs, read as Findings.
\<close>

theorem findings_keep_snapshot_order:
  "list_pods v1_client nso = Inr items \<longrightarrow>
     (let out = get_containers_with_missing_limits v1_client nso;
          pairs = snapshot_containers items;
          pos = emitting_positions items
      in length pos = length out
         \<and> (\<forall>a. a < length out \<longrightarrow>
               pos ! a < length pairs \<and> out ! a = finding_of (pairs ! (pos ! a)))
         \<and> (\<forall>a b. a < b \<and> b < length out \<longrightarrow> pos ! a < pos ! b)
         \<and> subseq out (map finding_of pairs))"
proof
  assume listed: "list_pods v1_client nso = Inr items"
  let ?out = "get_containers_with_missing_limits v1_client nso"
  let ?pairs = "snapshot_containers items"
  let ?pos = "emitting_positions items"
  have out: "?out = map (\<lambda>i. finding_of (?pairs ! i)) ?pos"
    using listed by (simp add: get_containers_collect collect_issues_positions)
  have len: "length ?pos = length ?out"
    by (simp add: out)
  have nth: "?pos ! a < length ?pairs \<and> ?out ! a = finding_of (?pairs ! (?pos ! a))"
    if "a < length ?out" for a
  proof -
    from that have a: "a < length ?pos"
      by (simp add: len)
    then have "?pos ! a \<in> set ?pos"
      by simp
    then have "?pos ! a < length ?pairs"
      by (rule emitting_positions_bound)
    moreover have "?out ! a = finding_of (?pairs ! (?pos ! a))"
      using a by (simp add: out)
    ultimately show ?thesis
      by simp
  qed
  have mono: "?pos ! a < ?pos ! b" if "a < b \<and> b < length ?out" for a b
    using that emitting_positions_sorted [of items] len
    by (simp add: sorted_wrt_iff_nth_less)
  have sub: "subseq ?out (map finding_of ?pairs)"
    using listed by (simp add: get_containers_collect collect_issues_subseq)
  show "let out = ?out; pairs = ?pairs; pos = ?pos
      in length pos = length out
         \<and> (\<forall>a. a < length out \<longrightarrow>
               pos ! a < length pairs \<and> out ! a = finding_of (pairs ! (pos ! a)))
         \<and> (\<forall>a b. a < b \<and> b < length out \<longrightarrow> pos ! a < pos ! b)
         \<and> subseq out (map finding_of pairs)"
    unfolding Let_def using len nth mono sub by blast
qed

lemma web_positions: "emitting_positions [web_pod] = [0, 2]"
proof -
  have "[0..<3] = [0, 1, 2]"
    by (simp add: upt_rec)
  then show ?thesis
    by (simp add: emitting_positions_def snapshot_containers_def web_pod_def
        app_container_def sidecar_container_def db_container_def db_limits_def
        flagged_def finding_of_def limit_missing_def limits_mapping_def)
qed

theorem findings_keep_snapshot_order_witness:
  "get_containers_with_missing_limits web_cluster None = [app_issue, sidecar_issue]
   \<and> emitting_positions [web_pod] = [0, 2]
   \<and> emitting_positions [web_pod] ! 0 < emitting_positions [web_pod] ! 1
   \<and> subseq [app_issue, sidecar_issue] (map finding_of (snapshot_containers [web_pod]))"
proof -
  have out: "get_containers_with_missing_limits web_cluster None = [app_issue, sidecar_issue]"
    by (simp add: get_containers_listed list_pods_web snapshot_containers_def web_pod_def
      app_container_def sidecar_container_def db_container_def db_limits_def
      flagged_def finding_of_def limit_missing_def limits_mapping_def
      app_issue_def sidecar_issue_def)
  note t = findings_keep_snapshot_order [of web_cluster None "[web_pod]", THEN mp,
      OF list_pods_web, unfolded Let_def out]
  from t have "emitting_positions [web_pod] ! 0 < emitting_positions [web_pod] ! 1"
    by simp
  moreover from t
  have "subseq [app_issue, sidecar_issue] (map finding_of (snapshot_containers [web_pod]))"
    by blast
  ultimately show ?thesis
    using out web_positions by blast
qed

section \<open>Properties of the session and the reporters on no Findings\<close>

lemma format_table_Nil:
  "format_table [] = ''No containers with missing resource limits found.''"
  by (simp add: format_table_def)

lemma format_csv_Nil:
  "format_csv [] = ''NAMESPACE,POD_NAME,CONTAINER_NAME,MISSING_CPU_LIMIT,MISSING_MEMORY_LIMIT''"
  by (simp add: format_csv_def)

lemma format_json_Nil: "format_json [] = ''[]''"
  by (simp add: format_json_def json_list_def)

lemma main_no_issues:
  "connect env = Some v1_client \<Longrightarrow>
   get_containers_with_missing_limits v1_client (arg_namespace args) = [] \<Longrightarrow>
   main env args =
     \<lparr>exit_code = 0,
      printed = Some (if arg_output args = ''json'' then format_json []
                      else if arg_output args = ''csv'' then format_csv []
                      else format_table []),
      patch_calls = []\<rparr>"
  by (simp add: main_def Let_def)

text \<open>
  Claim C6. If the listing call raises, whatever the exception, the evaluator returns the
  empty list. The run of \<open>main\<close> then ends as the run on a cluster without Findings
  does: the same exit code 0, the same printed report (the reporter's text for no
  Findings) and no patch call.
\<close>

theorem listing_failure_gives_no_findings:
  "(list_pods v1_client nso = Inl e \<longrightarrow> get_containers_with_missing_limits v1_client nso = [])
   \<and> (connect env = Some v1_client \<and> list_pods v1_client (arg_namespace args) = Inl e
       \<and> connect env' = Some v1_client'
       \<and> get_containers_with_missing_limits v1_client' (arg_namespace args) = []
       \<longrightarrow> main env args = main env' args
           \<and> exit_code (main env args) = 0
           \<and> printed (main env args)
               = Some (if arg_output args = ''json'' then format_json []
                       else if arg_output args = ''csv'' then format_csv []
                       else format_table [])
           \<and> patch_calls (main env args) = [])"
proof (intro conjI impI)
  assume "list_pods v1_client nso = Inl e"
  then show "get_containers_with_missing_limits v1_client nso = []"
    by (rule get_containers_failed)
next
  assume h: "connect env = Some v1_client \<and> list_pods v1_client (arg_namespace args) = Inl e
       \<and> connect env' = Some v1_client'
       \<and> get_containers_with_missing_limits v1_client' (arg_namespace args) = []"
  then have "get_containers_with_missing_limits v1_client (arg_namespace args) = []"
    by (simp add: get_containers_failed)
  with h have a: "main env args =
     \<lparr>exit_code = 0,
      printed = Some (if arg_output args = ''json'' then format_json []
                      else if arg_output args = ''csv'' then format_csv []
                      else format_table []),
      patch_calls = []\<rparr>"
    by (simp add: main_no_issues)
  from h have b: "main env' args =
     \<lparr>exit_code = 0,
      printed = Some (if arg_output args = ''json'' then format_json []
                      else if arg_output args = ''csv'' then format_csv []
                      else format_table []),
      patch_calls = []\<rparr>"
    by (simp add: main_no_issues)
  from a b show "main env args = main env' args"
    by simp
  from a show "exit_code (main env args) = 0"
    by simp
  from a show "printed (main env args)
               = Some (if arg_output args = ''json'' then format_json []
                       else if arg_output args = ''csv'' then format_csv []
                       else format_table [])"
    by simp
  from a show "patch_calls (main env args) = []"
    by simp
qed

lemma connect_broken_env: "connect broken_env = Some broken_cluster"
  by (simp add: connect_def broken_env_def)

lemma connect_empty_env: "connect empty_env = Some empty_cluster"
  by (simp add: connect_def empty_env_def)

lemma list_pods_broken: "list_pods broken_cluster None = Inl OtherException"
  by (simp add: list_pods_def broken_cluster_def)

lemma get_containers_empty_cluster:
  "get_containers_with_missing_limits empty_cluster None = []"
  by (simp add: get_containers_with_missing_limits_def list_pods_def empty_cluster_def
      collect_issues_def)

theorem listing_failure_gives_no_findings_witness:
  "get_containers_with_missing_limits broken_cluster None = []
   \<and> main broken_env table_args = main empty_env table_args
   \<and> exit_code (main broken_env table_args) = 0
   \<and> printed (main broken_env table_args)
       = Some ''No containers with missing resource limits found.''
   \<and> patch_calls (main broken_env table_args) = []"
proof -
  have ns: "arg_namespace table_args = None"
    by (simp add: table_args_def)
  have out: "arg_output table_args = ''table''"
    by (simp add: table_args_def)
  note t = listing_failure_gives_no_findings [of broken_cluster None OtherException broken_env
      table_args empty_env empty_cluster]
  have a: "get_containers_with_missing_limits broken_cluster None = []"
    using t [THEN conjunct1] list_pods_broken by simp
  have h: "connect broken_env = Some broken_cluster
       \<and> list_pods broken_cluster (arg_namespace table_args) = Inl OtherException
       \<and> connect empty_env = Some empty_cluster
       \<and> get_containers_with_missing_limits empty_cluster (arg_namespace table_args) = []"
    by (simp add: ns connect_broken_env connect_empty_env list_pods_broken
        get_containers_empty_cluster)
  note c = t [THEN conjunct2, THEN mp, OF h]
  have p: "printed (main broken_env table_args)
       = Some ''No containers with missing resource limits found.''"
    using c [THEN conjunct2, THEN conjunct2, THEN conjunct1]
    by (simp add: out format_table_Nil)
  from a c p show ?thesis
    by blast
qed

lemma connect_None_iff:
  "(connect env = None) =
     ((\<exists>e. incluster env = Inl e \<and> e \<noteq> ConfigException)
      \<or> (incluster env = Inl ConfigException \<and> (\<exists>e. kubeconfig env = Inl e)))"
  by (cases "incluster env"; cases "kubeconfig env")
     (auto simp: connect_def split: py_exception.splits)

lemma exit_code_main: "exit_code (main env args) = (if connect env = None then 1 else 0)"
  by (cases "connect env") (simp_all add: main_def Let_def)

text \<open>
  Claim C7, as amended. \<open>main\<close> returns exit code 1 if and only if \<open>connect\<close> fails, and
  \<open>connect\<close> fails in exactly two cases: the in-cluster path raises an exception other
  than \<open>ConfigException\<close> (the external configuration is then not tried), or the
  in-cluster path raises \<open>ConfigException\<close> and the external-config path raises too. In
  every other case, whatever the listing and the patch calls do, \<open>main\<close> returns 0.
\<close>

theorem exit_code_one_iff_connect_fails:
  "(exit_code (main env args) = 1) = (connect env = None)
   \<and> (exit_code (main env args) = 0) = (connect env \<noteq> None)
   \<and> (connect env = None) =
       ((\<exists>e. incluster env = Inl e \<and> e \<noteq> ConfigException)
        \<or> (incluster env = Inl ConfigException \<and> (\<exists>e. kubeconfig env = Inl e)))"
proof (intro conjI)
  show "(exit_code (main env args) = 1) = (connect env = None)"
    by (simp add: exit_code_main)
  show "(exit_code (main env args) = 0) = (connect env \<noteq> None)"
    by (simp add: exit_code_main)
  show "(connect env = None) =
       ((\<exists>e. incluster env = Inl e \<and> e \<noteq> ConfigException)
        \<or> (incluster env = Inl ConfigException \<and> (\<exists>e. kubeconfig env = Inl e)))"
    by (rule connect_None_iff)
qed

theorem exit_code_one_iff_connect_fails_witness:
  "exit_code (main broken_env table_args) = 0
   \<and> exit_code (main no_config_env table_args) = 1
   \<and> exit_code (main unexpected_env table_args) = 1"
  using exit_code_one_iff_connect_fails [of broken_env table_args]
    exit_code_one_iff_connect_fails [of no_config_env table_args]
    exit_code_one_iff_connect_fails [of unexpected_env table_args]
  by (simp add: broken_env_def no_config_env_def unexpected_env_def)

text \<open>
  Claim C7 as stated fails: when the in-cluster path raises an unexpected exception,
  \<open>main\<close> returns 1 although the external-config path has not failed (it would have
  given a client).
\<close>

theorem exit_code_one_counterexample:
  "\<not> ((exit_code (main unexpected_env table_args) = 1)
        = (isl (incluster unexpected_env) \<and> isl (kubeconfig unexpected_env)))"
  by (simp add: exit_code_main connect_def unexpected_env_def)

text \<open>
  Claim C8. On the empty Finding sequence the tabular reporter returns the sentence
  \<open>No containers with missing resource limits found.\<close>, the delimited reporter returns
  the header line alone and the structured reporter returns the empty list \<open>[]\<close>; the
  three reporters are total functions, so none of them fails.
\<close>

theorem reporters_on_no_findings:
  "format_table [] = ''No containers with missing resource limits found.''
   \<and> format_csv [] = ''NAMESPACE,POD_NAME,CONTAINER_NAME,MISSING_CPU_LIMIT,MISSING_MEMORY_LIMIT''
   \<and> format_json [] = ''[]''"
  using format_table_Nil format_csv_Nil format_json_Nil by blast

section \<open>Properties of the annotator\<close>

lemma dict_update_keys: "map fst (dict_update k g d) = map fst d"
  by (induction d) auto

lemma dict_update_absent: "k \<notin> fst ` set d \<Longrightarrow> dict_update k g d = d"
  by (induction d) auto

lemma dict_update_append_absent:
  "k \<notin> fst ` set d \<Longrightarrow> dict_update k g (d @ [(k, v)]) = d @ [(k, g v)]"
  by (induction d) auto

lemma dict_update_map:
  "distinct (map fst d) \<Longrightarrow>
   dict_update k g d = map (\<lambda>kv. (fst kv, if fst kv = k then g (snd kv) else snd kv)) d"
proof (induction d)
  case Nil
  show ?case by simp
next
  case (Cons a d)
  obtain k' v where a: "a = (k', v)"
    by (cases a)
  show ?case
  proof (cases "k' = k")
    case True
    with Cons.prems a have "k \<notin> fst ` set d"
      by simp
    then have "map (\<lambda>kv. (fst kv, if fst kv = k then g (snd kv) else snd kv)) d = d"
      by (intro map_idI) auto
    with True a show ?thesis
      by simp
  next
    case False
    with Cons a show ?thesis
      by simp
  qed
qed

lemma map_of_None_keys: "(map_of d k = None) = (k \<notin> fst ` set d)"
  by (simp add: map_of_eq_None_iff)

lemma group_issue_keys:
  "map fst (group_issue d x) =
     (if pod_key_of x \<in> set (map fst d) then map fst d else map fst d @ [pod_key_of x])"
  by (simp add: group_issue_def Let_def dict_update_keys map_of_None_keys)

lemma first_keys_snoc:
  "first_keys (xs @ [x]) =
     (if pod_key_of x \<in> set (first_keys xs) then first_keys xs else first_keys xs @ [pod_key_of x])"
  by (simp add: first_keys_def)

lemma set_first_keys: "set (first_keys xs) = pod_key_of ` set xs"
  by (simp add: first_keys_def)

lemma grouped_keys: "map fst (foldl group_issue [] issues) = first_keys issues"
proof (induction issues rule: rev_induct)
  case Nil
  show ?case by (simp add: first_keys_def)
next
  case (snoc x xs)
  then show ?case
    by (simp add: group_issue_keys first_keys_snoc)
qed

lemma distinct_first_keys: "distinct (first_keys issues)"
  by (simp add: first_keys_def)

lemma grouped_distinct: "distinct (map fst (foldl group_issue [] issues))"
  by (simp add: grouped_keys distinct_first_keys)

lemma dict_update_twice:
  "dict_update k g2 (dict_update k g1 d) = dict_update k (\<lambda>v. g2 (g1 v)) d"
  by (induction d) auto

lemma group_issue_present:
  assumes "distinct (map fst d)" and "pod_key_of x \<in> fst ` set d"
  shows "group_issue d x =
     map (\<lambda>kv. (fst kv, if fst kv = pod_key_of x then merge_info x (snd kv) else snd kv)) d"
proof -
  let ?k = "pod_key_of x"
  have present: "(map_of d ?k = None) = False"
    using assms(2) by (simp add: map_of_None_keys)
  have "group_issue d x =
      (let d2 = (if missing_cpu_limit x
                 then dict_update ?k (\<lambda>v. v\<lparr>pi_missing_cpu := True\<rparr>) d else d)
       in if missing_memory_limit x
          then dict_update ?k (\<lambda>v. v\<lparr>pi_missing_memory := True\<rparr>) d2 else d2)"
    unfolding group_issue_def Let_def present by simp
  also have "\<dots> = dict_update ?k (merge_info x) d"
  proof (cases "missing_cpu_limit x"; cases "missing_memory_limit x")
    assume c: "missing_cpu_limit x" "missing_memory_limit x"
    have "merge_info x = (\<lambda>v. v\<lparr>pi_missing_cpu := True, pi_missing_memory := True\<rparr>)"
      using c by (simp add: merge_info_def fun_eq_iff)
    with c show ?thesis
      by (simp add: dict_update_twice)
  next
    assume c: "missing_cpu_limit x" "\<not> missing_memory_limit x"
    have "merge_info x = (\<lambda>v. v\<lparr>pi_missing_cpu := True\<rparr>)"
      using c by (simp add: merge_info_def fun_eq_iff)
    with c show ?thesis
      by simp
  next
    assume c: "\<not> missing_cpu_limit x" "missing_memory_limit x"
    have "merge_info x = (\<lambda>v. v\<lparr>pi_missing_memory := True\<rparr>)"
      using c by (simp add: merge_info_def fun_eq_iff)
    with c show ?thesis
      by simp
  next
    assume c: "\<not> missing_cpu_limit x" "\<not> missing_memory_limit x"
    have m: "merge_info x = (\<lambda>v. v)"
      using c by (simp add: merge_info_def fun_eq_iff)
    have "dict_update ?k (\<lambda>v. v) d = d"
      by (induction d) auto
    with c m show ?thesis
      by simp
  qed
  also have "\<dots> =
     map (\<lambda>kv. (fst kv, if fst kv = ?k then merge_info x (snd kv) else snd kv)) d"
    using assms(1) by (rule dict_update_map)
  finally show ?thesis .
qed

lemma group_issue_absent:
  assumes "pod_key_of x \<notin> fst ` set d"
  shows "group_issue d x = d @ [(pod_key_of x, fresh_info x)]"
proof -
  have absent: "map_of d (pod_key_of x) = None"
    using assms by (simp add: map_of_None_keys)
  show ?thesis
    using assms absent
    by (simp add: group_issue_def Let_def dict_update_keys dict_update_append_absent
        fresh_info_def)
qed

lemma pod_key_of_pod: "pod_key_of f = pod_key (pod_of f)"
  by (simp add: pod_key_of_def pod_key_def pod_of_def)

lemma keys_separate_pods_butlast:
  "keys_separate_pods (xs @ [x]) \<Longrightarrow> keys_separate_pods xs"
  unfolding keys_separate_pods_def set_append by blast

lemma keys_separate_pods_key_eq:
  assumes "keys_separate_pods issues" and "f \<in> set issues" and "g \<in> set issues"
  shows "(pod_key (pod_of f) = pod_key (pod_of g)) = (pod_of f = pod_of g)"
proof
  assume "pod_key (pod_of f) = pod_key (pod_of g)"
  then have "pod_key_of f = pod_key_of g"
    by (simp only: pod_key_of_pod)
  with assms show "pod_of f = pod_of g"
    unfolding keys_separate_pods_def by blast
next
  assume "pod_of f = pod_of g"
  then show "pod_key (pod_of f) = pod_key (pod_of g)"
    by (rule arg_cong)
qed

lemma set_first_pods: "set (first_pods xs) = pod_of ` set xs"
  by (simp add: first_pods_def)

lemma distinct_first_pods: "distinct (first_pods xs)"
  by (simp add: first_pods_def)

lemma first_pods_snoc:
  "first_pods (xs @ [x]) =
     (if pod_of x \<in> set (first_pods xs) then first_pods xs else first_pods xs @ [pod_of x])"
  by (simp add: first_pods_def)

lemma group_missing_cpu_snoc:
  "group_missing_cpu (xs @ [x]) p
     = (group_missing_cpu xs p \<or> (pod_of x = p \<and> missing_cpu_limit x))"
  by (simp add: group_missing_cpu_def)

lemma group_missing_memory_snoc:
  "group_missing_memory (xs @ [x]) p
     = (group_missing_memory xs p \<or> (pod_of x = p \<and> missing_memory_limit x))"
  by (simp add: group_missing_memory_def)

lemma group_missing_cpu_absent: "p \<notin> pod_of ` set xs \<Longrightarrow> \<not> group_missing_cpu xs p"
  unfolding group_missing_cpu_def list_ex_iff by blast

lemma group_missing_memory_absent: "p \<notin> pod_of ` set xs \<Longrightarrow> \<not> group_missing_memory xs p"
  unfolding group_missing_memory_def list_ex_iff by blast

lemma group_info_snoc:
  "group_info (xs @ [x]) p =
     (if p = pod_of x then merge_info x (group_info xs p) else group_info xs p)"
proof (cases "p = pod_of x")
  case True
  then show ?thesis
    by (simp add: group_info_def merge_info_def group_missing_cpu_snoc group_missing_memory_snoc)
next
  case False
  then have "pod_of x \<noteq> p"
    by (rule not_sym)
  with False show ?thesis
    by (simp add: group_info_def group_missing_cpu_snoc group_missing_memory_snoc)
qed

lemma group_info_fresh:
  assumes "pod_of x \<notin> pod_of ` set xs"
  shows "group_info (xs @ [x]) (pod_of x) = fresh_info x"
proof -
  have "\<not> group_missing_cpu xs (pod_of x)" and "\<not> group_missing_memory xs (pod_of x)"
    using assms by (rule group_missing_cpu_absent, rule group_missing_memory_absent)
  then show ?thesis
    by (simp add: group_info_def fresh_info_def group_missing_cpu_snoc
        group_missing_memory_snoc pod_of_def)
qed

text \<open>
  The dict the grouping loop builds, when keys separate pods: one entry for each
  distinct pod, in the order of first occurrence, holding the pod's summary.
\<close>

lemma grouped_by_pod:
  "keys_separate_pods issues \<Longrightarrow>
   foldl group_issue [] issues = map (\<lambda>p. (pod_key p, group_info issues p)) (first_pods issues)"
proof (induction issues rule: rev_induct)
  case Nil
  show ?case by (simp add: first_pods_def)
next
  case (snoc x xs)
  let ?d = "foldl group_issue [] xs"
  have sep: "keys_separate_pods xs"
    using snoc.prems by (rule keys_separate_pods_butlast)
  have ih: "?d = map (\<lambda>p. (pod_key p, group_info xs p)) (first_pods xs)"
    using sep by (rule snoc.IH)
  have dist: "distinct (map fst ?d)"
    by (rule grouped_distinct)
  have keys: "fst ` set ?d = pod_key_of ` set xs"
    using grouped_keys [of xs] set_first_keys [of xs] by (metis set_map)
  have same_key: "(pod_key p = pod_key (pod_of x)) = (p = pod_of x)"
    if "p \<in> set (first_pods xs)" for p
  proof -
    from that obtain f where f: "f \<in> set xs" "p = pod_of f"
      by (auto simp: set_first_pods)
    then show ?thesis
      using keys_separate_pods_key_eq [OF snoc.prems, of f x] by simp
  qed
  have member: "(pod_key_of x \<in> fst ` set ?d) = (pod_of x \<in> set (first_pods xs))"
  proof
    assume "pod_key_of x \<in> fst ` set ?d"
    then obtain f where f: "f \<in> set xs" "pod_key_of x = pod_key_of f"
      by (auto simp: keys)
    then have "pod_of x = pod_of f"
      using keys_separate_pods_key_eq [OF snoc.prems, of x f] by (simp add: pod_key_of_pod)
    with f show "pod_of x \<in> set (first_pods xs)"
      by (simp add: set_first_pods)
  next
    assume "pod_of x \<in> set (first_pods xs)"
    then obtain f where f: "f \<in> set xs" "pod_of x = pod_of f"
      by (auto simp: set_first_pods)
    then have "pod_key_of x = pod_key_of f"
      by (simp add: pod_key_of_pod)
    with f show "pod_key_of x \<in> fst ` set ?d"
      by (auto simp: keys)
  qed
  have step: "foldl group_issue [] (xs @ [x]) = group_issue ?d x"
    by simp
  show ?case
  proof (cases "pod_of x \<in> set (first_pods xs)")
    case True
    then have "pod_key_of x \<in> fst ` set ?d"
      by (simp add: member)
    with dist have "group_issue ?d x =
        map (\<lambda>kv. (fst kv, if fst kv = pod_key_of x then merge_info x (snd kv) else snd kv)) ?d"
      by (rule group_issue_present)
    also have "\<dots> = map (\<lambda>p. (pod_key p,
          if pod_key p = pod_key (pod_of x) then merge_info x (group_info xs p)
          else group_info xs p)) (first_pods xs)"
      by (simp add: ih o_def pod_key_of_pod)
    also have "\<dots> = map (\<lambda>p. (pod_key p, group_info (xs @ [x]) p)) (first_pods xs)"
      by (rule map_cong) (simp_all add: same_key group_info_snoc)
    finally show ?thesis
      using True by (simp only: step first_pods_snoc if_True)
  next
    case False
    then have absent: "pod_key_of x \<notin> fst ` set ?d"
      by (simp add: member)
    have other: "group_info (xs @ [x]) p = group_info xs p" if "p \<in> set (first_pods xs)" for p
      using that False by (auto simp: group_info_snoc)
    have new: "group_info (xs @ [x]) (pod_of x) = fresh_info x"
      using False by (simp add: group_info_fresh set_first_pods)
    have "group_issue ?d x = ?d @ [(pod_key_of x, fresh_info x)]"
      using absent by (rule group_issue_absent)
    also have "\<dots> = map (\<lambda>p. (pod_key p, group_info xs p)) (first_pods xs)
                    @ [(pod_key (pod_of x), group_info (xs @ [x]) (pod_of x))]"
      by (simp add: ih new pod_key_of_pod)
    also have "map (\<lambda>p. (pod_key p, group_info xs p)) (first_pods xs)
        = map (\<lambda>p. (pod_key p, group_info (xs @ [x]) p)) (first_pods xs)"
      by (rule map_cong) (simp_all add: other)
    finally show ?thesis
      using False by (simp only: step first_pods_snoc if_False map_append list.map)
  qed
qed

text \<open>One pass of the annotation loop, and the whole loop.\<close>

lemma apply_patch_calls:
  "snd (apply_patch v1_client calls ns pn val)
     = calls @ [\<lparr>pc_namespace = ns, pc_name = pn, pc_warning = val\<rparr>]"
  by (simp add: apply_patch_def Let_def split: option.split py_exception.split)

lemma annotate_pod_calls:
  "snd (annotate_pod v1_client calls ns pn cpu mem)
     = calls @ (if cpu \<or> mem
                then [\<lparr>pc_namespace = ns, pc_name = pn, pc_warning = label cpu mem\<rparr>] else [])"
  by (simp add: annotate_pod_def apply_patch_calls label_def)

lemma annotate_step_calls:
  "snd (annotate_step v1_client st info)
     = snd st @ (if has_flag info then [call_of_info info] else [])"
proof -
  obtain s f calls where st: "st = ((s, f), calls)"
    by (cases st) auto
  obtain ok calls' where r: "annotate_pod v1_client calls (pi_namespace info) (pi_pod_name info)
      (pi_missing_cpu info) (pi_missing_memory info) = (ok, calls')"
    by (cases "annotate_pod v1_client calls (pi_namespace info) (pi_pod_name info)
      (pi_missing_cpu info) (pi_missing_memory info)")
  have "calls' = calls @ (if has_flag info then [call_of_info info] else [])"
    using annotate_pod_calls [of v1_client calls "pi_namespace info" "pi_pod_name info"
        "pi_missing_cpu info" "pi_missing_memory info"] r
    by (simp add: has_flag_def call_of_info_def)
  then show ?thesis
    by (cases ok) (simp_all add: annotate_step_def st r)
qed

lemma annotate_step_counts:
  "fst (fst (annotate_step v1_client st info)) + snd (fst (annotate_step v1_client st info))
     = fst (fst st) + snd (fst st) + 1"
proof -
  obtain s f calls where st: "st = ((s, f), calls)"
    by (cases st) auto
  obtain ok calls' where r: "annotate_pod v1_client calls (pi_namespace info) (pi_pod_name info)
      (pi_missing_cpu info) (pi_missing_memory info) = (ok, calls')"
    by (cases "annotate_pod v1_client calls (pi_namespace info) (pi_pod_name info)
      (pi_missing_cpu info) (pi_missing_memory info)")
  show ?thesis
    by (cases ok) (simp_all add: annotate_step_def st r)
qed

lemma annotate_loop_calls:
  "snd (foldl (annotate_step v1_client) st infos)
     = snd st @ map call_of_info (filter has_flag infos)"
proof (induction infos arbitrary: st)
  case Nil
  show ?case by simp
next
  case (Cons info infos)
  have "snd (foldl (annotate_step v1_client) st (info # infos))
      = snd (foldl (annotate_step v1_client) (annotate_step v1_client st info) infos)"
    by simp
  also have "\<dots> = snd (annotate_step v1_client st info) @ map call_of_info (filter has_flag infos)"
    by (rule Cons.IH)
  finally show ?case
    by (simp add: annotate_step_calls)
qed

lemma annotate_loop_counts:
  "fst (fst (foldl (annotate_step v1_client) st infos))
   + snd (fst (foldl (annotate_step v1_client) st infos))
     = fst (fst st) + snd (fst st) + length infos"
proof (induction infos arbitrary: st)
  case Nil
  show ?case by simp
next
  case (Cons info infos)
  let ?st = "annotate_step v1_client st info"
  have "fst (fst (foldl (annotate_step v1_client) st (info # infos)))
        + snd (fst (foldl (annotate_step v1_client) st (info # infos)))
      = fst (fst (foldl (annotate_step v1_client) ?st infos))
        + snd (fst (foldl (annotate_step v1_client) ?st infos))"
    by simp
  also have "\<dots> = fst (fst ?st) + snd (fst ?st) + length infos"
    by (rule Cons.IH)
  finally show ?case
    by (simp add: annotate_step_counts)
qed

lemma annotate_calls:
  "snd (annotate_pods_with_issues v1_client calls issues)
     = calls @ map call_of_info (filter has_flag (map snd (foldl group_issue [] issues)))"
  by (simp add: annotate_pods_with_issues_def Let_def annotate_loop_calls)

lemma annotate_counts:
  "fst (fst (annotate_pods_with_issues v1_client calls issues))
   + snd (fst (annotate_pods_with_issues v1_client calls issues))
     = card (set (map pod_key_of issues))"
proof -
  have "length (foldl group_issue [] issues) = length (first_keys issues)"
    using grouped_keys [of issues] by (metis length_map)
  also have "\<dots> = card (set (map pod_key_of issues))"
    by (simp add: first_keys_def length_remdups_card_conv)
  finally show ?thesis
    by (simp add: annotate_pods_with_issues_def Let_def annotate_loop_counts)
qed

lemma append_sep_inject:
  "a \<notin> set xs \<Longrightarrow> a \<notin> set ys \<Longrightarrow> xs @ a # us = ys @ a # vs \<Longrightarrow> xs = ys \<and> us = vs"
proof (induction xs arbitrary: ys)
  case Nil
  then show ?case by (cases ys) auto
next
  case (Cons x xs)
  then show ?case by (cases ys) auto
qed

text \<open>Keys separate pods as soon as no namespace contains a slash.\<close>

lemma keys_separate_pods_no_slash:
  assumes "\<And>f. f \<in> set issues \<Longrightarrow> CHR ''/'' \<notin> set (namespace f)"
  shows "keys_separate_pods issues"
  unfolding keys_separate_pods_def
proof (intro ballI impI)
  fix f g
  assume f: "f \<in> set issues" and g: "g \<in> set issues"
    and eq: "pod_key_of f = pod_key_of g"
  from eq have "namespace f @ CHR ''/'' # pod_name f = namespace g @ CHR ''/'' # pod_name g"
    by (simp add: pod_key_of_def)
  with assms [OF f] assms [OF g] have "namespace f = namespace g \<and> pod_name f = pod_name g"
    by (rule append_sep_inject)
  then show "pod_of f = pod_of g"
    by (simp add: pod_of_def)
qed

lemma call_of_group_info: "call_of_info (group_info issues p) = expected_call issues p"
  by (simp add: call_of_info_def group_info_def expected_call_def)

lemma group_has_flag:
  assumes "\<And>f. f \<in> set issues \<Longrightarrow> missing_cpu_limit f \<or> missing_memory_limit f"
    and "p \<in> set (first_pods issues)"
  shows "has_flag (group_info issues p)"
proof -
  from assms(2) obtain f where f: "f \<in> set issues" "pod_of f = p"
    by (auto simp: set_first_pods)
  from assms(1) [OF f(1)] f show ?thesis
    unfolding has_flag_def group_info_def group_missing_cpu_def group_missing_memory_def
      list_ex_iff
    by auto
qed

lemma annotate_calls_by_pod:
  assumes "keys_separate_pods issues"
    and "\<And>f. f \<in> set issues \<Longrightarrow> missing_cpu_limit f \<or> missing_memory_limit f"
  shows "snd (annotate_pods_with_issues v1_client calls issues) = calls @ expected_calls issues"
proof -
  have "map snd (foldl group_issue [] issues) = map (group_info issues) (first_pods issues)"
    by (simp add: grouped_by_pod [OF assms(1)] o_def)
  moreover have "filter has_flag (map (group_info issues) (first_pods issues))
      = map (group_info issues) (first_pods issues)"
    using group_has_flag [OF assms(2)] by (simp add: filter_id_conv)
  ultimately show ?thesis
    by (simp add: annotate_calls expected_calls_def call_of_group_info)
qed

lemma expected_calls_pods: "map call_pod (expected_calls issues) = first_pods issues"
  by (simp add: expected_calls_def o_def call_pod_def expected_call_def)

lemma card_keys_pods:
  assumes "keys_separate_pods issues"
  shows "card (set (map pod_key_of issues)) = card (set (map pod_of issues))"
proof -
  have inj: "inj_on pod_key (pod_of ` set issues)"
  proof (rule inj_onI)
    fix p q
    assume "p \<in> pod_of ` set issues" and "q \<in> pod_of ` set issues"
      and eq: "pod_key p = pod_key q"
    then obtain f g where fg: "f \<in> set issues" "p = pod_of f" "g \<in> set issues" "q = pod_of g"
      by blast
    with eq show "p = q"
      using keys_separate_pods_key_eq [OF assms, of f g] by simp
  qed
  have "pod_key_of ` set issues = pod_key ` (pod_of ` set issues)"
    by (simp add: image_image pod_key_of_pod)
  then have "card (pod_key_of ` set issues) = card (pod_of ` set issues)"
    using inj by (simp add: card_image)
  then show ?thesis
    by simp
qed

lemma collect_issues_flags_set: "flags_set (collect_issues items)"
  unfolding flags_set_def collect_issues_eq
proof
  fix f
  assume "f \<in> set (map finding_of (filter flagged (snapshot_containers items)))"
  then obtain pc where "flagged pc" and "f = finding_of pc"
    by auto
  then show "missing_cpu_limit f \<or> missing_memory_limit f"
    by (simp add: flagged_def)
qed

lemma cluster_namespaces_separate: "cluster_namespaces issues \<Longrightarrow> keys_separate_pods issues"
  unfolding cluster_namespaces_def by (rule keys_separate_pods_no_slash) blast

text \<open>
  Claim C4. For every Finding sequence given to the annotator (each Finding has a flag
  set, as every Finding the evaluator emits has, and no namespace holds a \<open>/\<close>, as no
  namespace of a cluster does), exactly one patch call is attempted for each distinct
  (namespace, pod_name) pair, in the order of first occurrence and never one for each
  Finding, and the value of each call is the label of the logical OR of
  \<open>missing_cpu_limit\<close> and of \<open>missing_memory_limit\<close> over all the Findings of that pod:
  \<open>no-limits\<close> for both, \<open>no-cpu-limit\<close> for cpu only, \<open>no-memory-limit\<close> for memory
  only.
\<close>

theorem one_patch_call_per_pod:
  "flags_set (collect_issues items)
   \<and> (flags_set issues \<and> cluster_namespaces issues
       \<longrightarrow> snd (annotate_pods_with_issues v1_client calls issues) = calls @ expected_calls issues
           \<and> map call_pod (expected_calls issues) = first_pods issues
           \<and> distinct (first_pods issues)
           \<and> set (first_pods issues) = set (map pod_of issues)
           \<and> length (expected_calls issues) = card (set (map pod_of issues)))"
proof (rule conjI)
  show "flags_set (collect_issues items)"
    by (rule collect_issues_flags_set)
next
  show "flags_set issues \<and> cluster_namespaces issues
       \<longrightarrow> snd (annotate_pods_with_issues v1_client calls issues) = calls @ expected_calls issues
           \<and> map call_pod (expected_calls issues) = first_pods issues
           \<and> distinct (first_pods issues)
           \<and> set (first_pods issues) = set (map pod_of issues)
           \<and> length (expected_calls issues) = card (set (map pod_of issues))"
  proof (rule impI)
  assume h: "flags_set issues \<and> cluster_namespaces issues"
  then have sep: "keys_separate_pods issues"
    by (simp add: cluster_namespaces_separate)
  from h have flags: "\<And>f. f \<in> set issues \<Longrightarrow> missing_cpu_limit f \<or> missing_memory_limit f"
    unfolding flags_set_def by blast
  have a: "snd (annotate_pods_with_issues v1_client calls issues)
      = calls @ expected_calls issues"
    using sep flags by (rule annotate_calls_by_pod)
  have b: "map call_pod (expected_calls issues) = first_pods issues"
    by (rule expected_calls_pods)
  have c: "distinct (first_pods issues)"
    by (rule distinct_first_pods)
  have d: "set (first_pods issues) = set (map pod_of issues)"
    by (simp add: set_first_pods)
  have "length (expected_calls issues) = length (first_pods issues)"
    by (simp add: expected_calls_def)
  also have "\<dots> = card (set (first_pods issues))"
    using c by (simp add: distinct_card)
  finally have e: "length (expected_calls issues) = card (set (map pod_of issues))"
    by (simp only: d)
  from a b c d e
  show "snd (annotate_pods_with_issues v1_client calls issues) = calls @ expected_calls issues
       \<and> map call_pod (expected_calls issues) = first_pods issues
       \<and> distinct (first_pods issues)
       \<and> set (first_pods issues) = set (map pod_of issues)
       \<and> length (expected_calls issues) = card (set (map pod_of issues))"
    by blast
  qed
qed

lemma web_issues_namespaces: "cluster_namespaces [app_issue, sidecar_issue, api_issue]"
  by (simp add: cluster_namespaces_def app_issue_def sidecar_issue_def api_issue_def)

lemma web_issues_flagged: "flags_set [app_issue, sidecar_issue, api_issue]"
  by (simp add: flags_set_def app_issue_def sidecar_issue_def api_issue_def)

lemma web_expected_calls:
  "expected_calls [app_issue, sidecar_issue, api_issue] =
     [\<lparr>pc_namespace = ''ns-a'', pc_name = ''web-1'', pc_warning = ''no-limits''\<rparr>,
      \<lparr>pc_namespace = ''ns-b'', pc_name = ''api-1'', pc_warning = ''no-cpu-limit''\<rparr>]"
  by (simp add: expected_calls_def expected_call_def first_pods_def pod_of_def label_def
      group_missing_cpu_def group_missing_memory_def
      app_issue_def sidecar_issue_def api_issue_def)

theorem one_patch_call_per_pod_witness:
  "snd (annotate_pods_with_issues broken_cluster [] [app_issue, sidecar_issue, api_issue]) =
     [\<lparr>pc_namespace = ''ns-a'', pc_name = ''web-1'', pc_warning = ''no-limits''\<rparr>,
      \<lparr>pc_namespace = ''ns-b'', pc_name = ''api-1'', pc_warning = ''no-cpu-limit''\<rparr>]"
proof -
  have h: "flags_set [app_issue, sidecar_issue, api_issue]
      \<and> cluster_namespaces [app_issue, sidecar_issue, api_issue]"
    using web_issues_flagged web_issues_namespaces by (rule conjI)
  note t = one_patch_call_per_pod [of "[]" "[app_issue, sidecar_issue, api_issue]"
      broken_cluster "[]", THEN conjunct2, THEN mp, OF h, THEN conjunct1]
  then show ?thesis
    by (simp only: web_expected_calls append_Nil)
qed

text \<open>
  Claim C5. For every Finding sequence given to the annotator (no namespace holds a
  \<open>/\<close>, as no namespace of a cluster does), the two counts returned sum to the number
  of distinct (namespace, pod_name) pairs of the Findings, not to the number of
  Findings; and a failed attempt does not stop the loop: the patch calls attempted are
  the same whatever the earlier calls answer, so they are those attempted on a cluster
  that accepts every patch.
\<close>

theorem counts_sum_to_number_of_pods:
  "(cluster_namespaces issues \<longrightarrow>
        fst (fst (annotate_pods_with_issues v1_client calls issues))
          + snd (fst (annotate_pods_with_issues v1_client calls issues))
          = card (set (map pod_of issues)))
   \<and> snd (annotate_pods_with_issues v1_client calls issues)
       = snd (annotate_pods_with_issues v1_client' calls issues)"
proof (intro conjI impI)
  assume "cluster_namespaces issues"
  then have "keys_separate_pods issues"
    by (rule cluster_namespaces_separate)
  then have "card (set (map pod_key_of issues)) = card (set (map pod_of issues))"
    by (rule card_keys_pods)
  then show "fst (fst (annotate_pods_with_issues v1_client calls issues))
          + snd (fst (annotate_pods_with_issues v1_client calls issues))
          = card (set (map pod_of issues))"
    by (simp only: annotate_counts)
next
  show "snd (annotate_pods_with_issues v1_client calls issues)
       = snd (annotate_pods_with_issues v1_client' calls issues)"
    by (simp only: annotate_calls)
qed

lemma web_issues_pods: "card (set (map pod_of [app_issue, sidecar_issue, api_issue])) = 2"
  by (simp add: pod_of_def app_issue_def sidecar_issue_def api_issue_def)

lemma broken_cluster_counts:
  "fst (annotate_pods_with_issues broken_cluster [] [app_issue, sidecar_issue, api_issue]) = (0, 2)"
  by (simp add: annotate_pods_with_issues_def group_issue_def pod_key_of_def Let_def
      annotate_step_def annotate_pod_def apply_patch_def broken_cluster_def
      app_issue_def sidecar_issue_def api_issue_def)

theorem counts_sum_to_number_of_pods_witness:
  "fst (annotate_pods_with_issues broken_cluster [] [app_issue, sidecar_issue, api_issue]) = (0, 2)
   \<and> fst (fst (annotate_pods_with_issues broken_cluster [] [app_issue, sidecar_issue, api_issue]))
       + snd (fst (annotate_pods_with_issues broken_cluster [] [app_issue, sidecar_issue, api_issue]))
       = 2
   \<and> snd (annotate_pods_with_issues broken_cluster [] [app_issue, sidecar_issue, api_issue])
       = snd (annotate_pods_with_issues web_cluster [] [app_issue, sidecar_issue, api_issue])"
proof -
  note t = counts_sum_to_number_of_pods [of "[app_issue, sidecar_issue, api_issue]"
      broken_cluster "[]" web_cluster]
  have a: "fst (fst (annotate_pods_with_issues broken_cluster [] [app_issue, sidecar_issue, api_issue]))
       + snd (fst (annotate_pods_with_issues broken_cluster [] [app_issue, sidecar_issue, api_issue]))
       = 2"
    using t [THEN conjunct1, THEN mp, OF web_issues_namespaces]
    by (simp only: web_issues_pods)
  from broken_cluster_counts a t [THEN conjunct2] show ?thesis
    by (intro conjI)
qed

text \<open>
  Claim C10. Called with both flags false, \<open>annotate_pod\<close> makes no patch call and
  returns \<open>False\<close>. In the annotation loop such a pod adds one to the failure count and
  nothing to the calls made on the cluster; a batch made of one record with no flag set
  returns no success, one failure and leaves the calls as they were.
\<close>

theorem nothing_missing_counts_as_failure:
  "annotate_pod v1_client calls ns pn False False = (False, calls)
   \<and> (\<not> pi_missing_cpu info \<and> \<not> pi_missing_memory info \<longrightarrow>
        annotate_step v1_client ((s, f), calls) info = ((s, f + 1), calls))
   \<and> annotate_pods_with_issues v1_client calls
        [\<lparr>namespace = ns, pod_name = pn, container_name = cn,
          missing_cpu_limit = False, missing_memory_limit = False\<rparr>]
       = ((0, 1), calls)"
proof (intro conjI impI)
  show "annotate_pod v1_client calls ns pn False False = (False, calls)"
    by (simp add: annotate_pod_def)
next
  assume "\<not> pi_missing_cpu info \<and> \<not> pi_missing_memory info"
  then show "annotate_step v1_client ((s, f), calls) info = ((s, f + 1), calls)"
    by (simp add: annotate_step_def annotate_pod_def)
next
  show "annotate_pods_with_issues v1_client calls
        [\<lparr>namespace = ns, pod_name = pn, container_name = cn,
          missing_cpu_limit = False, missing_memory_limit = False\<rparr>]
       = ((0, 1), calls)"
    by (simp add: annotate_pods_with_issues_def group_issue_def Let_def annotate_step_def
        annotate_pod_def)
qed

theorem nothing_missing_counts_as_failure_witness:
  "annotate_step web_cluster ((2, 3), [])
       \<lparr>pi_namespace = ''ns-c'', pi_pod_name = ''job-1'',
        pi_missing_cpu = False, pi_missing_memory = False\<rparr>
     = ((2, 4), [])
   \<and> annotate_pods_with_issues web_cluster [] [unflagged_issue] = ((0, 1), [])"
proof -
  have a: "annotate_step web_cluster ((2, 3), [])
       \<lparr>pi_namespace = ''ns-c'', pi_pod_name = ''job-1'',
        pi_missing_cpu = False, pi_missing_memory = False\<rparr>
     = ((2, 4), [])"
    using nothing_missing_counts_as_failure [of web_cluster "[]" "''ns-c''" "''job-1''"
        "\<lparr>pi_namespace = ''ns-c'', pi_pod_name = ''job-1'',
          pi_missing_cpu = False, pi_missing_memory = False\<rparr>" 2 3 "''run''"]
    by simp
  have b: "annotate_pods_with_issues web_cluster [] [unflagged_issue] = ((0, 1), [])"
    using nothing_missing_counts_as_failure [of web_cluster "[]" "''ns-c''" "''job-1''"
        "\<lparr>pi_namespace = ''ns-c'', pi_pod_name = ''job-1'',
          pi_missing_cpu = False, pi_missing_memory = False\<rparr>" 2 3 "''run''",
        THEN conjunct2, THEN conjunct2]
    by (simp only: unflagged_issue_def)
  from a b show ?thesis
    by (rule conjI)
qed

section \<open>Properties of the reporters\<close>

lemma split_on_none: "c \<notin> set a \<Longrightarrow> split_on c a = [a]"
  by (induction a) auto

lemma split_on_sep: "c \<notin> set a \<Longrightarrow> split_on c (a @ c # r) = a # split_on c r"
  by (induction a) auto

text \<open>Pieces without the separator, each followed by it, come back as they are.\<close>

lemma split_on_pieces:
  "(\<And>x. x \<in> set xs \<Longrightarrow> c \<notin> set x) \<Longrightarrow>
   split_on c (concat (map (\<lambda>x. x @ [c]) xs) @ r) = xs @ split_on c r"
proof (induction xs)
  case Nil
  show ?case by simp
next
  case (Cons x xs)
  have "split_on c (concat (map (\<lambda>x. x @ [c]) (x # xs)) @ r)
      = split_on c (x @ c # (concat (map (\<lambda>x. x @ [c]) xs) @ r))"
    by simp
  also have "\<dots> = x # split_on c (concat (map (\<lambda>x. x @ [c]) xs) @ r)"
    using Cons.prems by (intro split_on_sep) simp
  also have "split_on c (concat (map (\<lambda>x. x @ [c]) xs) @ r) = xs @ split_on c r"
    using Cons.prems by (intro Cons.IH) simp
  finally show ?case
    by simp
qed

lemma split_on_pieces_all:
  "list_all (\<lambda>x. c \<notin> set x) xs \<Longrightarrow>
   split_on c (concat (map (\<lambda>x. x @ [c]) xs) @ r) = xs @ split_on c r"
  by (rule split_on_pieces) (simp add: list_all_iff)

lemma join_Cons: "join sep (x # xs) = x @ concat (map (\<lambda>y. sep @ y) xs)"
  by (induction xs arbitrary: x) auto

text \<open>Lines without a line feed, joined by line feeds, come back as they are.\<close>

lemma split_on_lines:
  "(\<And>y. y \<in> set (x # xs) \<Longrightarrow> c \<notin> set y) \<Longrightarrow>
   split_on c (x @ concat (map (\<lambda>y. [c] @ y) xs)) = x # xs"
proof (induction xs arbitrary: x)
  case Nil
  then show ?case by (simp add: split_on_none)
next
  case (Cons y ys)
  have "split_on c (x @ concat (map (\<lambda>y. [c] @ y) (y # ys)))
      = split_on c (x @ c # (y @ concat (map (\<lambda>y. [c] @ y) ys)))"
    by simp
  also have "\<dots> = x # split_on c (y @ concat (map (\<lambda>y. [c] @ y) ys))"
    using Cons.prems by (intro split_on_sep) simp
  also have "split_on c (y @ concat (map (\<lambda>y. [c] @ y) ys)) = y # ys"
    using Cons.prems by (intro Cons.IH) simp
  finally show ?case .
qed

lemma split_on_join:
  "(\<And>y. y \<in> set (x # xs) \<Longrightarrow> CHR 0x0A \<notin> set y) \<Longrightarrow>
   split_on CHR 0x0A (join newline (x # xs)) = x # xs"
  unfolding join_Cons newline_def by (rule split_on_lines)

lemma those_map:
  "(\<And>x. x \<in> set xs \<Longrightarrow> g x = Some (f x)) \<Longrightarrow> those (map g xs) = Some (map f xs)"
  by (induction xs) simp_all

text \<open>What a name of the cluster does not hold.\<close>

lemma name_char_not:
  assumes "name_char c"
  shows "c \<noteq> dquote" and "c \<noteq> backslash" and "c \<noteq> CHR ''|''" and "c \<noteq> CHR '' ''"
    and "c \<noteq> CHR 0x0A" and "c \<noteq> CHR ''/''"
  using assms by (auto simp: name_char_def dquote_def backslash_def)

lemma name_without:
  assumes "list_all name_char s"
  shows "dquote \<notin> set s" and "backslash \<notin> set s" and "CHR ''|'' \<notin> set s"
    and "CHR '' '' \<notin> set s" and "CHR 0x0A \<notin> set s" and "CHR ''/'' \<notin> set s"
  using assms by (auto simp: list_all_iff dest: name_char_not)

lemma cluster_names_D:
  assumes "cluster_names issues" and "f \<in> set issues"
  shows "list_all name_char (namespace f)" and "list_all name_char (pod_name f)"
    and "list_all name_char (container_name f)"
  using assms unfolding cluster_names_def by blast+

subsection \<open>The delimited report\<close>

lemma py_str_bool_chars: "dquote \<notin> set (py_str_bool b)" "CHR 0x0A \<notin> set (py_str_bool b)"
  by (simp_all add: py_str_bool_def dquote_def)

lemma read_py_bool_str: "read_py_bool (py_str_bool b) = Some b"
  by (simp add: read_py_bool_def py_str_bool_def)

lemma csv_line_pieces:
  "csv_line f =
     concat (map (\<lambda>x. x @ [dquote])
       [[], namespace f, '','', pod_name f, '','', container_name f, '','',
        py_str_bool (missing_cpu_limit f), '','', py_str_bool (missing_memory_limit f)]) @ []"
  by (simp add: csv_line_def)

lemma split_csv_line:
  assumes "dquote \<notin> set (namespace f)" and "dquote \<notin> set (pod_name f)"
    and "dquote \<notin> set (container_name f)"
  shows "split_on dquote (csv_line f) =
     [[], namespace f, '','', pod_name f, '','', container_name f, '','',
      py_str_bool (missing_cpu_limit f), '','', py_str_bool (missing_memory_limit f), []]"
proof -
  have "dquote \<notin> set '',''"
    by (simp add: dquote_def)
  with assms py_str_bool_chars(1)
  have "list_all (\<lambda>x. dquote \<notin> set x)
     [[], namespace f, '','', pod_name f, '','', container_name f, '','',
      py_str_bool (missing_cpu_limit f), '','', py_str_bool (missing_memory_limit f)]"
    by simp
  then have "split_on dquote (csv_line f) =
     [[], namespace f, '','', pod_name f, '','', container_name f, '','',
      py_str_bool (missing_cpu_limit f), '','', py_str_bool (missing_memory_limit f)]
     @ split_on dquote []"
    unfolding csv_line_pieces by (rule split_on_pieces_all)
  then show ?thesis
    by simp
qed

lemma csv_fields_line:
  "csv_fields [[], a, '','', b, '','', c, '','', py_str_bool cpu, '','', py_str_bool mem, []]
     = Some (a, b, c, cpu, mem)"
  by (simp add: read_py_bool_str)

lemma read_csv_line_csv_line:
  assumes "dquote \<notin> set (namespace f)" and "dquote \<notin> set (pod_name f)"
    and "dquote \<notin> set (container_name f)"
  shows "read_csv_line (csv_line f) = Some (fields_of f)"
  unfolding read_csv_line_def split_csv_line [OF assms] fields_of_def by (rule csv_fields_line)

lemma csv_line_no_newline:
  assumes "CHR 0x0A \<notin> set (namespace f)" and "CHR 0x0A \<notin> set (pod_name f)"
    and "CHR 0x0A \<notin> set (container_name f)"
  shows "CHR 0x0A \<notin> set (csv_line f)"
  using assms py_str_bool_chars(2) by (simp add: csv_line_def dquote_def)

lemma read_csv_format_csv:
  assumes "cluster_names issues"
  shows "read_csv (format_csv issues) = Some (map fields_of issues)"
proof -
  let ?header = "''NAMESPACE,POD_NAME,CONTAINER_NAME,MISSING_CPU_LIMIT,MISSING_MEMORY_LIMIT''"
  have lines: "CHR 0x0A \<notin> set y" if "y \<in> set (?header # map csv_line issues)" for y
  proof (cases "y = ?header")
    case True
    then show ?thesis by simp
  next
    case False
    with that obtain f where f: "f \<in> set issues" and y: "y = csv_line f"
      by auto
    show ?thesis
      unfolding y
      by (rule csv_line_no_newline)
         (rule cluster_names_D [OF assms f, THEN name_without(5)])+
  qed
  have "split_on CHR 0x0A (format_csv issues) = ?header # map csv_line issues"
    unfolding format_csv_def using lines by (rule split_on_join)
  moreover have "those (map read_csv_line (map csv_line issues)) = Some (map fields_of issues)"
    unfolding map_map
  proof (rule those_map)
    fix f
    assume f: "f \<in> set issues"
    show "(read_csv_line \<circ> csv_line) f = Some (fields_of f)"
      unfolding o_apply
      by (rule read_csv_line_csv_line)
         (rule cluster_names_D [OF assms f, THEN name_without(1)])+
  qed
  ultimately show ?thesis
    by (simp add: read_csv_def)
qed

subsection \<open>The tabular report\<close>

lemma table_line_five:
  "table_line ws [v0, v1, v2, v3, v4] =
     ''| '' @ ljust (ws ! 0) v0 @ '' | '' @ ljust (ws ! 1) v1 @ '' | '' @ ljust (ws ! 2) v2
     @ '' | '' @ ljust (ws ! 3) v3 @ '' | '' @ ljust (ws ! 4) v4 @ '' |''"
  by (simp add: table_line_def eval_nat_numeral)

lemma table_line_pieces:
  "table_line ws [v0, v1, v2, v3, v4] =
     concat (map (\<lambda>x. x @ [CHR ''|''])
       [[], '' '' @ ljust (ws ! 0) v0 @ '' '', '' '' @ ljust (ws ! 1) v1 @ '' '',
        '' '' @ ljust (ws ! 2) v2 @ '' '', '' '' @ ljust (ws ! 3) v3 @ '' '',
        '' '' @ ljust (ws ! 4) v4 @ '' '']) @ []"
  by (simp add: table_line_five)

lemma ljust_no_bar: "CHR ''|'' \<notin> set v \<Longrightarrow> CHR ''|'' \<notin> set ('' '' @ ljust w v @ '' '')"
  by (simp add: ljust_def)

lemma split_table_line:
  assumes "CHR ''|'' \<notin> set v0" and "CHR ''|'' \<notin> set v1"
    and "CHR ''|'' \<notin> set v2" and "CHR ''|'' \<notin> set v3" and "CHR ''|'' \<notin> set v4"
  shows "split_on CHR ''|'' (table_line ws [v0, v1, v2, v3, v4]) =
     [[], '' '' @ ljust (ws ! 0) v0 @ '' '', '' '' @ ljust (ws ! 1) v1 @ '' '',
      '' '' @ ljust (ws ! 2) v2 @ '' '', '' '' @ ljust (ws ! 3) v3 @ '' '',
      '' '' @ ljust (ws ! 4) v4 @ '' '', []]"
proof -
  from assms [THEN ljust_no_bar]
  have "list_all (\<lambda>x. CHR ''|'' \<notin> set x)
     [[], '' '' @ ljust (ws ! 0) v0 @ '' '', '' '' @ ljust (ws ! 1) v1 @ '' '',
      '' '' @ ljust (ws ! 2) v2 @ '' '', '' '' @ ljust (ws ! 3) v3 @ '' '',
      '' '' @ ljust (ws ! 4) v4 @ '' '']"
    by simp
  then have "split_on CHR ''|'' (table_line ws [v0, v1, v2, v3, v4]) =
     [[], '' '' @ ljust (ws ! 0) v0 @ '' '', '' '' @ ljust (ws ! 1) v1 @ '' '',
      '' '' @ ljust (ws ! 2) v2 @ '' '', '' '' @ ljust (ws ! 3) v3 @ '' '',
      '' '' @ ljust (ws ! 4) v4 @ '' ''] @ split_on CHR ''|'' []"
    unfolding table_line_pieces by (rule split_on_pieces_all)
  then show ?thesis
    by simp
qed

text \<open>A value that does not end in a space comes back out of its padded cell.\<close>

lemma rstrip_padded:
  assumes "v = [] \<or> last v \<noteq> CHR '' ''"
  shows "rstrip (v @ replicate n CHR '' '') = v"
proof -
  have "dropWhile (\<lambda>c. c = CHR '' '') (replicate n CHR '' '' @ rev v)
      = dropWhile (\<lambda>c. c = CHR '' '') (rev v)"
    by (rule dropWhile_append2) simp
  also have "\<dots> = rev v"
  proof (cases v rule: rev_cases)
    case Nil
    then show ?thesis by simp
  next
    case (snoc ys y)
    with assms show ?thesis by simp
  qed
  finally show ?thesis
    by (simp add: rstrip_def)
qed

lemma read_cell_padded:
  assumes "v = [] \<or> last v \<noteq> CHR '' ''"
  shows "read_cell ('' '' @ ljust w v @ '' '') = Some v"
proof -
  have "ljust w v @ '' '' = v @ replicate (Suc (w - length v)) CHR '' ''"
    by (simp add: ljust_def replicate_append_same)
  then have "read_cell ('' '' @ ljust w v @ '' '')
      = Some (rstrip (v @ replicate (Suc (w - length v)) CHR '' ''))"
    by (simp add: read_cell_def)
  then show ?thesis
    by (simp only: rstrip_padded [OF assms])
qed

lemma table_pieces_cells:
  assumes "read_cell a = Some v0" and "read_cell b = Some v1" and "read_cell c = Some v2"
    and "read_cell d = Some v3" and "read_cell e = Some v4"
  shows "table_pieces [[], a, b, c, d, e, []] = Some [v0, v1, v2, v3, v4]"
  using assms by simp

lemma read_table_line_table_line:
  assumes "CHR ''|'' \<notin> set v0" and "CHR ''|'' \<notin> set v1"
    and "CHR ''|'' \<notin> set v2" and "CHR ''|'' \<notin> set v3" and "CHR ''|'' \<notin> set v4"
    and "v0 = [] \<or> last v0 \<noteq> CHR '' ''" and "v1 = [] \<or> last v1 \<noteq> CHR '' ''"
    and "v2 = [] \<or> last v2 \<noteq> CHR '' ''" and "v3 = [] \<or> last v3 \<noteq> CHR '' ''"
    and "v4 = [] \<or> last v4 \<noteq> CHR '' ''"
  shows "read_table_line (table_line ws [v0, v1, v2, v3, v4]) = Some [v0, v1, v2, v3, v4]"
  unfolding read_table_line_def split_table_line [OF assms(1-5)]
  by (rule table_pieces_cells) (rule assms(6-10) [THEN read_cell_padded])+

lemma read_table_line_headers:
  "read_table_line (table_line ws headers) = Some headers"
  unfolding headers_def by (rule read_table_line_table_line) simp_all

lemma no_space_last: "CHR '' '' \<notin> set v \<Longrightarrow> v = [] \<or> last v \<noteq> CHR '' ''"
  by (cases v rule: rev_cases) auto

lemma row_fields_cells:
  "row_fields [a, b, c, if cpu then ''YES'' else ''NO'', if mem then ''YES'' else ''NO'']
     = Some (a, b, c, cpu, mem)"
  by (simp add: read_yes_no_def)

lemma read_table_row_table_line:
  assumes "list_all name_char (namespace f)" and "list_all name_char (pod_name f)"
    and "list_all name_char (container_name f)"
  shows "read_table_row (table_line ws (table_cells f)) = Some (fields_of f)"
proof -
  have "read_table_line (table_line ws (table_cells f)) = Some (table_cells f)"
    unfolding table_cells_def
    by (rule read_table_line_table_line)
       (simp_all add: assms [THEN name_without(3)] assms [THEN name_without(4), THEN no_space_last])
  then show ?thesis
    unfolding read_table_row_def by (simp add: table_cells_def fields_of_def read_yes_no_def)
qed

lemma in_set_join:
  "c \<in> set (join sep xs) \<Longrightarrow> c \<in> set sep \<or> (\<exists>x \<in> set xs. c \<in> set x)"
  by (induction sep xs rule: join.induct) auto

lemma separator_chars: "c \<in> set (separator ws) \<Longrightarrow> c = CHR ''+'' \<or> c = CHR ''-''"
proof -
  assume "c \<in> set (separator ws)"
  then have "c = CHR ''+'' \<or> c \<in> set (join ''+'' (map (\<lambda>w. replicate (w + 2) CHR ''-'') ws))"
    by (auto simp: separator_def)
  then show ?thesis
  proof
    assume "c = CHR ''+''"
    then show ?thesis ..
  next
    assume "c \<in> set (join ''+'' (map (\<lambda>w. replicate (w + 2) CHR ''-'') ws))"
    then have "c \<in> set ''+''
        \<or> (\<exists>x \<in> set (map (\<lambda>w. replicate (w + 2) CHR ''-'') ws). c \<in> set x)"
      by (rule in_set_join)
    then show ?thesis
      by auto
  qed
qed

lemma is_border_separator: "is_border (separator ws)"
  using separator_chars [of _ ws] by (auto simp: is_border_def list_all_iff) (simp add: separator_def)

lemma separator_no_newline: "CHR 0x0A \<notin> set (separator ws)"
  using separator_chars [of "CHR 0x0A" ws] by auto

lemma table_line_no_newline:
  assumes "CHR 0x0A \<notin> set v0" and "CHR 0x0A \<notin> set v1" and "CHR 0x0A \<notin> set v2"
    and "CHR 0x0A \<notin> set v3" and "CHR 0x0A \<notin> set v4"
  shows "CHR 0x0A \<notin> set (table_line ws [v0, v1, v2, v3, v4])"
  using assms by (simp add: table_line_five ljust_def)

lemma table_line_headers_no_newline: "CHR 0x0A \<notin> set (table_line ws headers)"
  unfolding headers_def by (rule table_line_no_newline) simp_all

lemma table_row_no_newline:
  assumes "list_all name_char (namespace f)" and "list_all name_char (pod_name f)"
    and "list_all name_char (container_name f)"
  shows "CHR 0x0A \<notin> set (table_line ws (table_cells f))"
  unfolding table_cells_def
  by (rule table_line_no_newline) (simp_all add: assms [THEN name_without(5)])

lemma format_table_not_sentence:
  assumes "issues \<noteq> []"
  shows "format_table issues \<noteq> ''No containers with missing resource limits found.''"
proof -
  have "hd (format_table issues) = CHR ''+''"
    using assms by (simp add: format_table_def Let_def join_Cons separator_def)
  then show ?thesis
    by auto
qed

lemma read_table_lines:
  assumes "is_border sep" and "read_table_line header_line = Some headers"
    and "those (map read_table_row rows) = Some fs"
    and "split_on CHR 0x0A report = sep # header_line # sep # rows @ [sep]"
    and "report \<noteq> ''No containers with missing resource limits found.''"
  shows "read_table report = Some fs"
  using assms by (simp add: read_table_def)

lemma read_table_format_table:
  assumes "cluster_names issues"
  shows "read_table (format_table issues) = Some (map fields_of issues)"
proof (cases "issues = []")
  case True
  then show ?thesis
    by (simp add: read_table_def format_table_def)
next
  case False
  let ?ws = "col_widths issues"
  let ?rows = "map (\<lambda>issue. table_line ?ws (table_cells issue)) issues"
  let ?lines = "separator ?ws # table_line ?ws headers # separator ?ws # ?rows @ [separator ?ws]"
  have report: "format_table issues = join newline ?lines"
    using False by (simp add: format_table_def Let_def)
  have no_newline: "CHR 0x0A \<notin> set y" if "y \<in> set ?lines" for y
  proof -
    from that consider "y = separator ?ws" | "y = table_line ?ws headers"
      | f where "f \<in> set issues" and "y = table_line ?ws (table_cells f)"
      by auto
    then show ?thesis
    proof cases
      case 1
      then show ?thesis by (simp only: separator_no_newline not_False_eq_True)
    next
      case 2
      then show ?thesis by (simp only: table_line_headers_no_newline not_False_eq_True)
    next
      case 3
      show ?thesis
        unfolding 3(2) by (rule table_row_no_newline) (rule cluster_names_D [OF assms 3(1)])+
    qed
  qed
  have split: "split_on CHR 0x0A (format_table issues) = ?lines"
    unfolding report using no_newline by (rule split_on_join)
  have rows: "those (map read_table_row ?rows) = Some (map fields_of issues)"
    unfolding map_map
  proof (rule those_map)
    fix f
    assume f: "f \<in> set issues"
    show "(read_table_row \<circ> (\<lambda>issue. table_line ?ws (table_cells issue))) f = Some (fields_of f)"
      unfolding o_apply
      by (rule read_table_row_table_line) (rule cluster_names_D [OF assms f])+
  qed
  show ?thesis
    using is_border_separator read_table_line_headers rows split
      format_table_not_sentence [OF False]
    by (rule read_table_lines)
qed

subsection \<open>The structured report\<close>

lemma expect_prefix: "expect lit (lit @ r) = Some r"
  by (simp add: expect_def)

lemma unhex_table: "j < 16 \<Longrightarrow> unhex (''0123456789abcdef'' ! j) = Some j"
proof -
  assume "j < 16"
  then have "j = 0 \<or> j = 1 \<or> j = 2 \<or> j = 3 \<or> j = 4 \<or> j = 5 \<or> j = 6 \<or> j = 7
      \<or> j = 8 \<or> j = 9 \<or> j = 10 \<or> j = 11 \<or> j = 12 \<or> j = 13 \<or> j = 14 \<or> j = 15"
    by arith
  then show ?thesis
    by (elim disjE) (simp_all add: unhex_def)
qed

lemma unhex_hex_digit: "unhex (hex_digit k) = Some (k mod 16)"
  unfolding hex_digit_def by (rule unhex_table) simp

text \<open>Reading takes back what the encoder wrote for one character, whatever it is.\<close>

lemma read_plain_char:
  "c \<noteq> dquote \<Longrightarrow> c \<noteq> backslash \<Longrightarrow>
   read_string_body (c # t) = map_option (\<lambda>(s, rest). (c # s, rest)) (read_string_body t)"
  by simp

lemma read_short_escape:
  "read_escape (e # t) = Some (c, 1) \<Longrightarrow>
   read_string_body (backslash # e # t)
     = map_option (\<lambda>(s, rest). (c # s, rest)) (read_string_body t)"
  by (simp add: backslash_def dquote_def)

lemma read_u_escape:
  assumes "unhex h1 = Some a" and "unhex h2 = Some b"
  shows "read_string_body (backslash # CHR ''u'' # CHR ''0'' # CHR ''0'' # h1 # h2 # t)
     = map_option (\<lambda>(s, rest). (char_of (16 * a + b) # s, rest)) (read_string_body t)"
proof -
  have "unhex CHR ''0'' = Some 0"
    by (simp add: unhex_def)
  with assms have "read_escape (CHR ''u'' # CHR ''0'' # CHR ''0'' # h1 # h2 # t)
      = Some (char_of (16 * a + b), 5)"
    by (simp add: read_escape_def dquote_def backslash_def)
  then show ?thesis
    by (simp add: backslash_def dquote_def)
qed

lemma char_by_code: "(of_char c :: nat) = of_char d \<Longrightarrow> c = d"
  by (rule of_char_eqI)

lemma read_string_body_escape:
  "read_string_body (json_escape c @ t)
     = map_option (\<lambda>(s, rest). (c # s, rest)) (read_string_body t)"
proof -
  let ?n = "of_char c :: nat"
  consider "c = backslash" | "c = dquote"
    | "c \<noteq> backslash" and "c \<noteq> dquote" and "32 \<le> ?n \<and> ?n \<le> 126"
    | "?n = 8" | "?n = 12" | "?n = 10" | "?n = 13" | "?n = 9"
    | "c \<noteq> backslash" and "c \<noteq> dquote" and "\<not> (32 \<le> ?n \<and> ?n \<le> 126)"
      and "?n \<noteq> 8" and "?n \<noteq> 12" and "?n \<noteq> 10" and "?n \<noteq> 13" and "?n \<noteq> 9"
    by blast
  then show ?thesis
  proof cases
    case 1
    have "read_escape (backslash # t) = Some (backslash, 1)"
      by (simp add: read_escape_def backslash_def dquote_def)
    then have "read_string_body (backslash # backslash # t)
        = map_option (\<lambda>(s, rest). (backslash # s, rest)) (read_string_body t)"
      by (rule read_short_escape)
    then show ?thesis
      unfolding 1 by (simp add: json_escape_def)
  next
    case 2
    have "read_escape (dquote # t) = Some (dquote, 1)"
      by (simp add: read_escape_def)
    then have "read_string_body (backslash # dquote # t)
        = map_option (\<lambda>(s, rest). (dquote # s, rest)) (read_string_body t)"
      by (rule read_short_escape)
    then show ?thesis
      unfolding 2 by (simp add: json_escape_def backslash_def dquote_def)
  next
    case 3
    then have esc: "json_escape c = [c]"
      by (simp add: json_escape_def)
    show ?thesis
      unfolding esc append_Cons append_Nil using 3(2) 3(1) by (rule read_plain_char)
  next
    case 4
    then have c: "c = CHR 0x08"
      by (intro char_by_code) simp
    have "read_escape (CHR ''b'' # t) = Some (CHR 0x08, 1)"
      by (simp add: read_escape_def backslash_def dquote_def)
    then have "read_string_body (backslash # CHR ''b'' # t)
        = map_option (\<lambda>(s, rest). (CHR 0x08 # s, rest)) (read_string_body t)"
      by (rule read_short_escape)
    then show ?thesis
      unfolding c by (simp add: json_escape_def backslash_def dquote_def)
  next
    case 5
    then have c: "c = CHR 0x0C"
      by (intro char_by_code) simp
    have "read_escape (CHR ''f'' # t) = Some (CHR 0x0C, 1)"
      by (simp add: read_escape_def backslash_def dquote_def)
    then have "read_string_body (backslash # CHR ''f'' # t)
        = map_option (\<lambda>(s, rest). (CHR 0x0C # s, rest)) (read_string_body t)"
      by (rule read_short_escape)
    then show ?thesis
      unfolding c by (simp add: json_escape_def backslash_def dquote_def)
  next
    case 6
    then have c: "c = CHR 0x0A"
      by (intro char_by_code) simp
    have "read_escape (CHR ''n'' # t) = Some (CHR 0x0A, 1)"
      by (simp add: read_escape_def backslash_def dquote_def)
    then have "read_string_body (backslash # CHR ''n'' # t)
        = map_option (\<lambda>(s, rest). (CHR 0x0A # s, rest)) (read_string_body t)"
      by (rule read_short_escape)
    then show ?thesis
      unfolding c by (simp add: json_escape_def backslash_def dquote_def)
  next
    case 7
    then have c: "c = CHR 0x0D"
      by (intro char_by_code) simp
    have "read_escape (CHR ''r'' # t) = Some (CHR 0x0D, 1)"
      by (simp add: read_escape_def backslash_def dquote_def)
    then have "read_string_body (backslash # CHR ''r'' # t)
        = map_option (\<lambda>(s, rest). (CHR 0x0D # s, rest)) (read_string_body t)"
      by (rule read_short_escape)
    then show ?thesis
      unfolding c by (simp add: json_escape_def backslash_def dquote_def)
  next
    case 8
    then have c: "c = CHR 0x09"
      by (intro char_by_code) simp
    have "read_escape (CHR ''t'' # t) = Some (CHR 0x09, 1)"
      by (simp add: read_escape_def backslash_def dquote_def)
    then have "read_string_body (backslash # CHR ''t'' # t)
        = map_option (\<lambda>(s, rest). (CHR 0x09 # s, rest)) (read_string_body t)"
      by (rule read_short_escape)
    then show ?thesis
      unfolding c by (simp add: json_escape_def backslash_def dquote_def)
  next
    case 9
    then have esc: "json_escape c
        = [backslash, CHR ''u'', CHR ''0'', CHR ''0'', hex_digit (?n div 16), hex_digit ?n]"
      by (simp add: json_escape_def Let_def)
    have "?n < 256"
      by (rule nat_of_char_less_256)
    then have "?n div 16 < 16"
      by arith
    then have high: "(?n div 16) mod 16 = ?n div 16"
      by (rule mod_less)
    have code: "char_of (16 * (?n div 16) + ?n mod 16) = c"
      by (simp only: mult_div_mod_eq char_of_char)
    have "read_string_body
          (backslash # CHR ''u'' # CHR ''0'' # CHR ''0'' # hex_digit (?n div 16) # hex_digit ?n # t)
        = map_option (\<lambda>(s, rest). (char_of (16 * (?n div 16) + ?n mod 16) # s, rest))
            (read_string_body t)"
      by (rule read_u_escape) (simp_all only: unhex_hex_digit high)
    then show ?thesis
      unfolding esc code by simp
  qed
qed

lemma read_string_body_escaped:
  "read_string_body (concat (map json_escape s) @ dquote # rest) = Some (s, rest)"
proof (induction s)
  case Nil
  show ?case by simp
next
  case (Cons c s)
  have "read_string_body (concat (map json_escape (c # s)) @ dquote # rest)
      = read_string_body (json_escape c @ (concat (map json_escape s) @ dquote # rest))"
    by simp
  also have "\<dots> = map_option (\<lambda>(s, rest). (c # s, rest))
      (read_string_body (concat (map json_escape s) @ dquote # rest))"
    by (rule read_string_body_escape)
  finally show ?case
    by (simp add: Cons.IH)
qed

lemma read_json_string_json_string:
  "read_json_string (json_string s @ rest) = Some (s, rest)"
  by (simp add: read_json_string_def json_string_def read_string_body_escaped)

lemma read_json_bool_json_bool: "read_json_bool (json_bool b @ rest) = Some (b, rest)"
  by (simp add: read_json_bool_def json_bool_def expect_def)

lemma json_string_key:
  "json_string ''namespace'' = [dquote] @ ''namespace'' @ [dquote]"
  "json_string ''pod_name'' = [dquote] @ ''pod_name'' @ [dquote]"
  "json_string ''container_name'' = [dquote] @ ''container_name'' @ [dquote]"
  "json_string ''missing_cpu_limit'' = [dquote] @ ''missing_cpu_limit'' @ [dquote]"
  "json_string ''missing_memory_limit'' = [dquote] @ ''missing_memory_limit'' @ [dquote]"
  by (simp_all add: json_string_def json_escape_def dquote_def backslash_def)

lemma read_key_json_string:
  assumes "json_string key = [dquote] @ key @ [dquote]"
  shows "read_key key (json_string key @ '': '' @ r) = Some r"
proof -
  have "json_string key @ '': '' @ r = ([dquote] @ key @ [dquote] @ '': '') @ r"
    unfolding assms by simp
  then show ?thesis
    unfolding read_key_def by (simp only: expect_prefix)
qed

lemma read_string_member_written:
  assumes "json_string key = [dquote] @ key @ [dquote]"
  shows "read_string_member key (json_string key @ '': '' @ json_string v @ r) = Some (v, r)"
  unfolding read_string_member_def read_key_json_string [OF assms]
  by (simp add: read_json_string_json_string)

lemma read_bool_member_written:
  assumes "json_string key = [dquote] @ key @ [dquote]"
  shows "read_bool_member key (json_string key @ '': '' @ json_bool b @ r) = Some (b, r)"
  unfolding read_bool_member_def read_key_json_string [OF assms]
  by (simp add: read_json_bool_json_bool)

text \<open>The text of one dict, laid out as the reader takes it.\<close>

lemma json_dict_layout:
  "json_dict (asdict f) @ r =
     (''{'' @ newline @ ''    '')
     @ json_string ''namespace'' @ '': '' @ json_string (namespace f)
     @ ('','' @ newline @ ''    '')
     @ json_string ''pod_name'' @ '': '' @ json_string (pod_name f)
     @ ('','' @ newline @ ''    '')
     @ json_string ''container_name'' @ '': '' @ json_string (container_name f)
     @ ('','' @ newline @ ''    '')
     @ json_string ''missing_cpu_limit'' @ '': '' @ json_bool (missing_cpu_limit f)
     @ ('','' @ newline @ ''    '')
     @ json_string ''missing_memory_limit'' @ '': '' @ json_bool (missing_memory_limit f)
     @ (newline @ ''  }'') @ r"
  by (simp add: json_dict_def asdict_def)

lemma read_json_dict_json_dict:
  "read_json_dict (json_dict (asdict f) @ r) = Some (fields_of f, r)"
  unfolding json_dict_layout read_json_dict_def fields_of_def
  by (simp only: expect_prefix bind.bind_lunit case_prod_conv
      read_string_member_written [OF json_string_key(1)]
      read_string_member_written [OF json_string_key(2)]
      read_string_member_written [OF json_string_key(3)]
      read_bool_member_written [OF json_string_key(4)]
      read_bool_member_written [OF json_string_key(5)])

lemma read_json_dicts_last:
  "read_json_dict s = Some (f, newline @ '']'') \<Longrightarrow> read_json_dicts (Suc n) s = Some [f]"
  by simp

lemma read_json_dicts_more:
  assumes "read_json_dict s = Some (f, ('','' @ newline @ ''  '') @ s')"
    and "read_json_dicts n s' = Some fs"
  shows "read_json_dicts (Suc n) s = Some (f # fs)"
proof -
  have "('','' @ newline @ ''  '') @ s' \<noteq> newline @ '']''"
    by (simp add: newline_def)
  with assms show ?thesis
    by (simp only: read_json_dicts.simps option.case case_prod_conv if_False expect_prefix
        option.map)
qed

lemma read_json_dicts_written:
  "length fs < n \<Longrightarrow>
   read_json_dicts n
       (join ('','' @ newline @ ''  '') (map (\<lambda>issue. json_dict (asdict issue)) (f # fs))
        @ newline @ '']'')
     = Some (map fields_of (f # fs))"
proof (induction fs arbitrary: f n)
  case Nil
  then obtain m where n: "n = Suc m"
    by (cases n) simp_all
  have "read_json_dicts (Suc m) (json_dict (asdict f) @ newline @ '']'') = Some [fields_of f]"
    by (rule read_json_dicts_last) (rule read_json_dict_json_dict)
  then show ?case
    unfolding n by simp
next
  case (Cons g fs)
  let ?sep = "'','' @ newline @ ''  ''"
  let ?tail = "join ?sep (map (\<lambda>issue. json_dict (asdict issue)) (g # fs)) @ newline @ '']''"
  from Cons.prems obtain m where n: "n = Suc m" and m: "length fs < m"
    by (cases n) simp_all
  have whole: "join ?sep (map (\<lambda>issue. json_dict (asdict issue)) (f # g # fs)) @ newline @ '']''
      = json_dict (asdict f) @ ?sep @ ?tail"
    by simp
  have "read_json_dicts (Suc m) (json_dict (asdict f) @ ?sep @ ?tail)
      = Some (fields_of f # map fields_of (g # fs))"
  proof (rule read_json_dicts_more)
    show "read_json_dict (json_dict (asdict f) @ ?sep @ ?tail) = Some (fields_of f, ?sep @ ?tail)"
      by (rule read_json_dict_json_dict)
    show "read_json_dicts m ?tail = Some (map fields_of (g # fs))"
      using m by (rule Cons.IH)
  qed
  then show ?case
    unfolding n whole by simp
qed

lemma join_length: "sep \<noteq> [] \<Longrightarrow> length xs \<le> Suc (length (join sep xs))"
proof (induction sep xs rule: join.induct)
  case (3 sep x y ys)
  then have "length (y # ys) \<le> Suc (length (join sep (y # ys)))"
    by simp
  moreover from 3 have "Suc 0 \<le> length sep"
    by (cases sep) simp_all
  ultimately show ?case
    by simp
qed simp_all

lemma read_json_written:
  assumes "s = join ('','' @ newline @ ''  '') (map (\<lambda>issue. json_dict (asdict issue)) (f # fs))
        @ newline @ '']''"
  shows "read_json ((''['' @ newline @ ''  '') @ s) = Some (map fields_of (f # fs))"
proof -
  have "length (map (\<lambda>issue. json_dict (asdict issue)) (f # fs))
      \<le> Suc (length (join ('','' @ newline @ ''  '')
          (map (\<lambda>issue. json_dict (asdict issue)) (f # fs))))"
    by (rule join_length) simp
  then have "length fs < length s"
    unfolding assms by (simp add: newline_def)
  then have "read_json_dicts (length s) s = Some (map fields_of (f # fs))"
    unfolding assms by (rule read_json_dicts_written)
  moreover have "(''['' @ newline @ ''  '') @ s \<noteq> ''[]''"
    by (simp add: newline_def)
  ultimately show ?thesis
    unfolding read_json_def by (simp only: if_False expect_prefix option.case)
qed

lemma read_json_format_json: "read_json (format_json issues) = Some (map fields_of issues)"
proof (cases issues)
  case Nil
  then show ?thesis
    by (simp add: read_json_def format_json_def json_list_def)
next
  case (Cons f fs)
  have "format_json (f # fs) = (''['' @ newline @ ''  '')
      @ (join ('','' @ newline @ ''  '') (map (\<lambda>issue. json_dict (asdict issue)) (f # fs))
         @ newline @ '']'')"
    by (simp add: format_json_def json_list_def)
  then show ?thesis
    unfolding Cons by (simp only: read_json_written [OF refl])
qed

subsection \<open>The three reports together\<close>

lemma web_issues_names: "cluster_names [app_issue, sidecar_issue, api_issue]"
  by (simp add: cluster_names_def name_char_def app_issue_def sidecar_issue_def api_issue_def)

lemma web_issues_fields:
  "map fields_of [app_issue, sidecar_issue, api_issue] =
     [(''ns-a'', ''web-1'', ''app'', False, True),
      (''ns-a'', ''web-1'', ''sidecar'', True, True),
      (''ns-b'', ''api-1'', ''main'', True, False)]"
  by (simp add: fields_of_def app_issue_def sidecar_issue_def api_issue_def)

text \<open>
  Claim C9. For every Finding sequence, the three reports carry the same five field
  values for each Finding, in the order of the Findings: read back from the structured
  text, whatever the names are, and from the tabular and the delimited text, whose
  fields are written without escaping, for namespaces, pod names and container names
  that obey the naming rules of the cluster (lower-case letters, digits, \<open>-\<close> and \<open>.\<close>),
  the namespace, pod name and container name are the Finding's strings and the two
  booleans are the Finding's truth values, written \<open>true\<close>/\<open>false\<close>, \<open>YES\<close>/\<open>NO\<close> and
  \<open>True\<close>/\<open>False\<close>.
\<close>

theorem reports_carry_same_fields:
  "read_json (format_json issues) = Some (map fields_of issues)
   \<and> (cluster_names issues \<longrightarrow>
        read_table (format_table issues) = Some (map fields_of issues)
        \<and> read_csv (format_csv issues) = Some (map fields_of issues))"
proof (rule conjI)
  show "read_json (format_json issues) = Some (map fields_of issues)"
    by (rule read_json_format_json)
  show "cluster_names issues \<longrightarrow>
      read_table (format_table issues) = Some (map fields_of issues)
      \<and> read_csv (format_csv issues) = Some (map fields_of issues)"
  proof (rule impI)
    assume names: "cluster_names issues"
    from names have "read_table (format_table issues) = Some (map fields_of issues)"
      by (rule read_table_format_table)
    moreover from names have "read_csv (format_csv issues) = Some (map fields_of issues)"
      by (rule read_csv_format_csv)
    ultimately show "read_table (format_table issues) = Some (map fields_of issues)
        \<and> read_csv (format_csv issues) = Some (map fields_of issues)"
      by (rule conjI)
  qed
qed

theorem reports_carry_same_fields_witness:
  "read_json (format_json [app_issue, sidecar_issue, api_issue]) =
     Some [(''ns-a'', ''web-1'', ''app'', False, True),
           (''ns-a'', ''web-1'', ''sidecar'', True, True),
           (''ns-b'', ''api-1'', ''main'', True, False)]
   \<and> read_table (format_table [app_issue, sidecar_issue, api_issue]) =
     Some [(''ns-a'', ''web-1'', ''app'', False, True),
           (''ns-a'', ''web-1'', ''sidecar'', True, True),
           (''ns-b'', ''api-1'', ''main'', True, False)]
   \<and> read_csv (format_csv [app_issue, sidecar_issue, api_issue]) =
     Some [(''ns-a'', ''web-1'', ''app'', False, True),
           (''ns-a'', ''web-1'', ''sidecar'', True, True),
           (''ns-b'', ''api-1'', ''main'', True, False)]"
proof -
  note t = reports_carry_same_fields [of "[app_issue, sidecar_issue, api_issue]"]
  from t [THEN conjunct1] t [THEN conjunct2, THEN mp, OF web_issues_names]
  show ?thesis
    unfolding web_issues_fields by (rule conjI)
qed

end
